theory Spec2Isabelle
  imports
    Complex_Main
    "HOL-Library.Multiset"
    "HOL-Library.AList"
    "HOL-Library.Char_ord"
    "HOL-Library.List_Lexorder"
    "HOL-Library.Product_Lexorder"
begin

section \<open>Values and errors of the embedded Python\<close>

text \<open>
  A decoded JSON value. Python's \<open>int\<close> is unbounded (\<open>JInt\<close>); a \<open>float\<close> that
  the decoder produces from a standard JSON number is a finite double, kept here as the
  rational number it denotes (\<open>JFloat\<close>). Strings are byte lists (UTF-8).
\<close>

datatype jv =
    JNull
  | JBool bool
  | JInt int
  | JFloat rat
  | JStr string
  | JArr "jv list"
  | JObj "(string \<times> jv) list"

text \<open>The exceptions the modelled code can raise; \<open>RuntimeError\<close> carries its message.\<close>

datatype error =
    RuntimeError string
  | HTTPError int
  | JSONDecodeError
  | TypeError
  | ValueError
  | OverflowError
  | KeyError string

text \<open>Truth value of an object in a Python condition (\<open>if x:\<close>, \<open>x or y\<close>).\<close>

fun py_truthy :: "jv \<Rightarrow> bool" where
  "py_truthy JNull = False"
| "py_truthy (JBool b) = b"
| "py_truthy (JInt n) = (n \<noteq> 0)"
| "py_truthy (JFloat x) = (x \<noteq> 0)"
| "py_truthy (JStr s) = (s \<noteq> [])"
| "py_truthy (JArr xs) = (xs \<noteq> [])"
| "py_truthy (JObj kvs) = (kvs \<noteq> [])"

text \<open>\<open>d.get(k)\<close> gives \<open>None\<close> for a missing key and for a stored null alike.\<close>

fun get_truthy :: "jv option \<Rightarrow> bool" where
  "get_truthy None = False"
| "get_truthy (Some v) = py_truthy v"

fun is_none :: "jv option \<Rightarrow> bool" where
  "is_none None = True"
| "is_none (Some JNull) = True"
| "is_none (Some _) = False"

subsection \<open>Decimal rendering of integers in f-strings\<close>

definition digit_char :: "nat \<Rightarrow> char" where
  "digit_char n = ''0123456789'' ! (n mod 10)"

function str_nat :: "nat \<Rightarrow> string" where
  "str_nat n = (if n < 10 then [digit_char n] else str_nat (n div 10) @ [digit_char n])"
  by pat_completeness auto
termination
  by (relation "measure id") auto

declare str_nat.simps [simp del]

definition str_int :: "int \<Rightarrow> string" where
  "str_int i = (if i < 0 then CHR ''-'' # str_nat (nat (- i)) else str_nat (nat i))"

section \<open>Configuration and the remote feed's answers\<close>

text \<open>The module-level settings read from the environment.\<close>

record config =
  USERNAME :: string
  AUTH_TOKEN :: "string option"
  DRY_RUN :: bool
  FULL_HISTORY :: bool
  STRICT_PURGE :: bool
  HISTORY_DAYS :: int

definition WAKEANDFOCUS_GOAL :: string where
  "WAKEANDFOCUS_GOAL = ''wakeandfocus''"

definition FOCUSMATE_GOAL :: string where
  "FOCUSMATE_GOAL = ''focusmate''"

definition MIN_SESSION_MINUTES :: int where
  "MIN_SESSION_MINUTES = 50"

definition CUTOFF_HOUR :: int where
  "CUTOFF_HOUR = 9"

definition CUTOFF_MINUTE :: int where
  "CUTOFF_MINUTE = 15"

text \<open>
  What the client reads of an HTTP response: the status, the body text, and the body
  decoded as JSON (\<open>None\<close> when it is not JSON, so that \<open>resp.json()\<close> raises).
\<close>

record response =
  status_code :: int
  text_body :: string
  json_body :: "jv option"

text \<open>\<open>resp.raise_for_status()\<close> raises for a 4xx or 5xx status.\<close>

definition raise_for_status :: "response \<Rightarrow> error + unit" where
  "raise_for_status resp =
     (if 400 \<le> status_code resp \<and> status_code resp < 600
      then Inl (HTTPError (status_code resp)) else Inr ())"

definition resp_json :: "response \<Rightarrow> error + jv" where
  "resp_json resp = (case json_body resp of None \<Rightarrow> Inl JSONDecodeError | Some j \<Rightarrow> Inr j)"

section \<open>Qualification of a start time\<close>

definition qualifies_time :: "int \<Rightarrow> int \<Rightarrow> bool" where
  "qualifies_time hour minute =
     (hour < CUTOFF_HOUR \<or> (hour = CUTOFF_HOUR \<and> minute \<le> CUTOFF_MINUTE))"

section \<open>Datapoints and library functions\<close>

text \<open>
  A datapoint is the dictionary decoded from the feed, restricted to the six keys the
  program reads; \<open>None\<close> is a missing key.
\<close>

record dp =
  dp_id :: "jv option"
  dp_daystamp :: "jv option"
  dp_timestamp :: "jv option"
  dp_updated_at :: "jv option"
  dp_value :: "jv option"
  dp_comment :: "jv option"

text \<open>The empty dictionary.\<close>

definition dp_empty :: dp where
  "dp_empty = \<lparr>dp_id = None, dp_daystamp = None, dp_timestamp = None,
               dp_updated_at = None, dp_value = None, dp_comment = None\<rparr>"

text \<open>A Python float as the program can meet it: a finite double, an infinity or NaN.\<close>

datatype pyfloat = Finite rat | PosInf | NegInf | NaN

text \<open>
  A Python string is kept as the UTF-8 encoding of its code points; a character of the
  string is the byte sequence of one code point.
\<close>

type_synonym pychar = string

text \<open>
  Functions of the Python standard library and of the platform that the program calls and
  that are not part of the repository. A date is its proleptic Gregorian ordinal.
  \<^item> \<open>local_date ts\<close> is \<open>datetime.fromtimestamp(ts, tz=utc).astimezone(LOCAL_TZ).date()\<close>,
    or the exception it raises for a timestamp out of range;
  \<^item> \<open>strftime_ymd d\<close> is \<open>d.strftime("%Y%m%d")\<close>;
  \<^item> \<open>iso_timestamp u\<close> is \<open>datetime.fromisoformat(u.replace("Z", "+00:00")).timestamp()\<close>,
    \<open>None\<close> when it raises;
  \<^item> \<open>float_of_str s\<close> is \<open>float(s)\<close>, \<open>None\<close> when it raises \<open>ValueError\<close>;
  \<^item> \<open>str_of v\<close> is \<open>str(v)\<close> for a value that is neither a string nor an integer;
  \<^item> \<open>re_space c\<close>: the character \<open>c\<close> is in the class \<^verbatim>\<open>\s\<close> of a \<open>str\<close> pattern (Unicode
    whitespace);
  \<^item> \<open>re_decimal c\<close> is the value of \<open>c\<close> as a decimal digit when \<open>c\<close> is in the class
    \<^verbatim>\<open>\d\<close> of a \<open>str\<close> pattern (Unicode category Nd), the value \<open>int\<close> reads it with, and
    \<open>None\<close> when it is not in the class;
  \<^item> \<open>re_alnum c\<close> is \<open>c.isalnum()\<close>: with the underscore, the word characters that
    \<^verbatim>\<open>\b\<close> tells from the others in a \<open>str\<close> pattern;
  \<^item> \<open>re_ignorecase l c\<close>: the character \<open>c\<close> matches the lower-case ASCII letter \<open>l\<close> of
    a \<open>str\<close> pattern compiled with \<open>re.IGNORECASE\<close>;
  \<^item> \<open>int_max_str_digits\<close> is \<open>sys.get_int_max_str_digits()\<close>: the number of digits
    beyond which \<open>int\<close> refuses a string, \<open>0\<close> when there is no limit (an interpreter
    allows \<open>0\<close> or a limit of at least 640; the default is 4300).
\<close>

record pylib =
  local_date :: "rat \<Rightarrow> error + int"
  strftime_ymd :: "int \<Rightarrow> string"
  iso_timestamp :: "string \<Rightarrow> rat option"
  float_of_str :: "string \<Rightarrow> pyfloat option"
  str_of :: "jv \<Rightarrow> string"
  re_space :: "pychar \<Rightarrow> bool"
  re_decimal :: "pychar \<Rightarrow> nat option"
  re_alnum :: "pychar \<Rightarrow> bool"
  re_ignorecase :: "char \<Rightarrow> pychar \<Rightarrow> bool"
  int_max_str_digits :: nat

text \<open>\<open>date.max.toordinal()\<close>, the ordinal of 9999-12-31.\<close>

definition date_max :: int where
  "date_max = 3652059"

text \<open>\<open>d.get(k, default)\<close>: the default stands for a missing key only.\<close>

fun get_default :: "jv option \<Rightarrow> jv \<Rightarrow> jv" where
  "get_default None d = d"
| "get_default (Some v) d = v"

text \<open>The value of a number (\<open>bool\<close> is a subclass of \<open>int\<close>); \<open>None\<close> for anything else.\<close>

fun number_of :: "jv \<Rightarrow> rat option" where
  "number_of (JBool b) = Some (if b then 1 else 0)"
| "number_of (JInt n) = Some (of_int n)"
| "number_of (JFloat x) = Some x"
| "number_of _ = None"

section \<open>The comment parser\<close>

text \<open>
  The characters of a string: a byte that is not a continuation byte (\<open>10xxxxxx\<close>) starts
  a character, and the continuation bytes after it belong to it.
\<close>

definition is_continuation :: "char \<Rightarrow> bool" where
  "is_continuation c = (0x80 \<le> (of_char c :: nat) \<and> (of_char c :: nat) < 0xC0)"

function utf8_chars :: "string \<Rightarrow> pychar list" where
  "utf8_chars [] = []"
| "utf8_chars (c # cs) =
     (c # takeWhile is_continuation cs) # utf8_chars (dropWhile is_continuation cs)"
  by pat_completeness auto
termination
  by (relation "measure length") (auto simp: less_Suc_eq_le length_dropWhile_le)

text \<open>
  \<open>COMMENT_RE\<close> is
  \<^verbatim>\<open>^\s*(\d+)\s*minutes?\s+session\s+at\s+(\d{1,2}):(\d{2})\b\<close>, a \<open>str\<close> pattern compiled
  with \<open>re.IGNORECASE\<close>: its classes are the Unicode ones, which the library gives. The
  matcher lists the matches at the start of the string in the order in which the
  backtracking engine reaches them, every quantifier of the pattern being greedy;
  \<open>search\<close> returns the first (the pattern is anchored by \<^verbatim>\<open>^\<close>).
\<close>

definition is_digit :: "pylib \<Rightarrow> pychar \<Rightarrow> bool" where
  "is_digit lib c = (re_decimal lib c \<noteq> None)"

definition is_word :: "pylib \<Rightarrow> pychar \<Rightarrow> bool" where
  "is_word lib c = (re_alnum lib c \<or> c = ''_'')"

text \<open>
  A greedy repetition of a class: the ways to split the input into a run of characters
  of the class and the rest, the longest run first.
\<close>

fun greedy :: "('a \<Rightarrow> bool) \<Rightarrow> 'a list \<Rightarrow> ('a list \<times> 'a list) list" where
  "greedy P [] = [([], [])]"
| "greedy P (c # cs) =
     (if P c then map (\<lambda>(g, r). (c # g, r)) (greedy P cs) else []) @ [([], c # cs)]"

text \<open>The repetition \<^verbatim>\<open>{m,n}\<close> of a class, and \<^verbatim>\<open>+\<close>.\<close>

definition between :: "('a \<Rightarrow> bool) \<Rightarrow> nat \<Rightarrow> nat \<Rightarrow> 'a list \<Rightarrow> ('a list \<times> 'a list) list" where
  "between P m n s = filter (\<lambda>(g, r). m \<le> length g \<and> length g \<le> n) (greedy P s)"

definition at_least_one :: "('a \<Rightarrow> bool) \<Rightarrow> 'a list \<Rightarrow> ('a list \<times> 'a list) list" where
  "at_least_one P s = filter (\<lambda>(g, r). g \<noteq> []) (greedy P s)"

text \<open>A word of the pattern (lower-case letters) at the head of the input, case ignored.\<close>

fun literal :: "pylib \<Rightarrow> string \<Rightarrow> pychar list \<Rightarrow> pychar list option" where
  "literal lib [] s = Some s"
| "literal lib (l # ls) [] = None"
| "literal lib (l # ls) (c # cs) = (if re_ignorecase lib l c then literal lib ls cs else None)"

text \<open>\<^verbatim>\<open>s?\<close>: with the letter first, then without it.\<close>

definition optional_s :: "pylib \<Rightarrow> pychar list \<Rightarrow> pychar list list" where
  "optional_s lib s =
     (case s of [] \<Rightarrow> [] | c # cs \<Rightarrow> if re_ignorecase lib CHR ''s'' c then [cs] else []) @ [s]"

text \<open>
  \<^verbatim>\<open>\b\<close> after the character \<open>prev\<close>: exactly one of \<open>prev\<close> and the next character is a word
  character, the end of the string counting as none.
\<close>

definition word_boundary :: "pylib \<Rightarrow> pychar \<Rightarrow> pychar list \<Rightarrow> bool" where
  "word_boundary lib prev rest =
     (is_word lib prev \<noteq> (case rest of [] \<Rightarrow> False | c # cs \<Rightarrow> is_word lib c))"

text \<open>\<^verbatim>\<open>(\d{1,2}):(\d{2})\b\<close>\<close>

definition clock_groups :: "pylib \<Rightarrow> pychar list \<Rightarrow> (pychar list \<times> pychar list) list" where
  "clock_groups lib s =
     List.bind (between (is_digit lib) 1 2 s) (\<lambda>(g2, r).
       case r of
         [] \<Rightarrow> []
       | c # r' \<Rightarrow>
           if c = '':''
           then List.bind (between (is_digit lib) 2 2 r') (\<lambda>(g3, r'').
                  if word_boundary lib (last g3) r'' then [(g2, g3)] else [])
           else [])"

text \<open>\<^verbatim>\<open>minutes?\s+session\s+at\s+(\d{1,2}):(\d{2})\b\<close>\<close>

definition after_minutes :: "pylib \<Rightarrow> pychar list \<Rightarrow> (pychar list \<times> pychar list) list" where
  "after_minutes lib s =
     (case literal lib ''minute'' s of
        None \<Rightarrow> []
      | Some r1 \<Rightarrow>
          List.bind (optional_s lib r1) (\<lambda>r2.
          List.bind (at_least_one (re_space lib) r2) (\<lambda>(sp2, r3).
            case literal lib ''session'' r3 of
              None \<Rightarrow> []
            | Some r4 \<Rightarrow>
                List.bind (at_least_one (re_space lib) r4) (\<lambda>(sp3, r5).
                  case literal lib ''at'' r5 of
                    None \<Rightarrow> []
                  | Some r6 \<Rightarrow>
                      List.bind (at_least_one (re_space lib) r6) (\<lambda>(sp4, r7).
                        clock_groups lib r7)))))"

text \<open>The groups of the matches of the whole pattern, in the order of the engine.\<close>

definition COMMENT_RE_matches ::
  "pylib \<Rightarrow> string \<Rightarrow> (pychar list \<times> pychar list \<times> pychar list) list" where
  "COMMENT_RE_matches lib s =
     List.bind (greedy (re_space lib) (utf8_chars s)) (\<lambda>(sp0, r0).
     List.bind (at_least_one (is_digit lib) r0) (\<lambda>(g1, r1).
     List.bind (greedy (re_space lib) r1) (\<lambda>(sp1, r2).
       map (\<lambda>(g2, g3). (g1, g2, g3)) (after_minutes lib r2))))"

text \<open>\<open>COMMENT_RE.search(s)\<close>: the three groups of the match, or \<open>None\<close>.\<close>

definition COMMENT_RE_search ::
  "pylib \<Rightarrow> string \<Rightarrow> (pychar list \<times> pychar list \<times> pychar list) option" where
  "COMMENT_RE_search lib s = (case COMMENT_RE_matches lib s of [] \<Rightarrow> None | m # ms \<Rightarrow> Some m)"

text \<open>
  \<open>int(g)\<close> on a group of decimal digits: \<open>None\<close> is the \<open>ValueError\<close> of a group with more
  digits than the interpreter's limit.
\<close>

definition py_int :: "pylib \<Rightarrow> pychar list \<Rightarrow> int option" where
  "py_int lib g =
     (if int_max_str_digits lib \<noteq> 0 \<and> int_max_str_digits lib < length g then None
      else Some (foldl (\<lambda>a c. 10 * a + int (case re_decimal lib c of None \<Rightarrow> 0 | Some v \<Rightarrow> v)) 0 g))"

text \<open>
  The argument is the Python object passed in; \<open>comment or ""\<close> replaces a falsy one by
  the empty string, and the search raises \<open>TypeError\<close> on an object that is not a string.
\<close>

definition parse_comment_for_length_and_time ::
  "pylib \<Rightarrow> jv \<Rightarrow> error + (int \<times> int \<times> int) option" where
  "parse_comment_for_length_and_time lib comment =
     (case (if py_truthy comment then comment else JStr []) of
        JStr s \<Rightarrow>
          (case COMMENT_RE_search lib s of
             None \<Rightarrow> Inr None
           | Some (g1, g2, g3) \<Rightarrow>
               (case py_int lib g1 of
                  None \<Rightarrow> Inl ValueError
                | Some minutes \<Rightarrow>
                    (case py_int lib g2 of
                       None \<Rightarrow> Inl ValueError
                     | Some hour \<Rightarrow>
                         (case py_int lib g3 of
                            None \<Rightarrow> Inl ValueError
                          | Some minute \<Rightarrow>
                              if \<not> (0 \<le> hour \<and> hour \<le> 23 \<and> 0 \<le> minute \<and> minute \<le> 59)
                              then Inr None
                              else Inr (Some (minutes, hour, minute))))))
      | _ \<Rightarrow> Inl TypeError)"

section \<open>The outcome of a day\<close>

text \<open>
  The loop over one day's records, the same in \<open>compute_sot_for_range\<close> (with
  \<open>val = 1; break\<close>) and in \<open>compute_today_outcome\<close> (with \<open>return 1\<close>).
\<close>

fun day_outcome :: "pylib \<Rightarrow> dp list \<Rightarrow> error + int" where
  "day_outcome lib [] = Inr 0"
| "day_outcome lib (d # ds) =
     (case parse_comment_for_length_and_time lib (get_default (dp_comment d) (JStr [])) of
        Inl e \<Rightarrow> Inl e
      | Inr None \<Rightarrow> day_outcome lib ds
      | Inr (Some (minutes, hour, minute)) \<Rightarrow>
          if minutes \<ge> MIN_SESSION_MINUTES \<and> qualifies_time hour minute then Inr 1
          else day_outcome lib ds)"

text \<open>
  \<open>compute_today_outcome\<close> of the single-day script, on the datapoints fetched for the
  source goal: the records whose \<open>daystamp\<close> equals today's.
\<close>

definition compute_today_outcome :: "pylib \<Rightarrow> string \<Rightarrow> dp list \<Rightarrow> error + int" where
  "compute_today_outcome lib today dps =
     day_outcome lib (filter (\<lambda>d. dp_daystamp d = Some (JStr today)) dps)"

section \<open>The source of truth over a date range\<close>

text \<open>
  A dictionary key. Python compares keys by value, so \<open>True\<close>, \<open>1\<close> and \<open>1.0\<close> are one
  key; lists and dictionaries are unhashable and raise \<open>TypeError\<close>.
\<close>

datatype pykey = KNone | KNum rat | KStr string

fun py_key :: "jv \<Rightarrow> error + pykey" where
  "py_key JNull = Inr KNone"
| "py_key (JBool b) = Inr (KNum (if b then 1 else 0))"
| "py_key (JInt n) = Inr (KNum (of_int n))"
| "py_key (JFloat x) = Inr (KNum x)"
| "py_key (JStr s) = Inr (KStr s)"
| "py_key (JArr xs) = Inl TypeError"
| "py_key (JObj kvs) = Inl TypeError"

text \<open>
  \<open>daystamp_of(datetime.fromtimestamp(ts, tz=timezone.utc), LOCAL_TZ)\<close>; a timestamp
  that is not a number raises \<open>TypeError\<close>.
\<close>

definition daystamp_of_timestamp :: "pylib \<Rightarrow> jv \<Rightarrow> error + string" where
  "daystamp_of_timestamp lib ts =
     (case number_of ts of
        None \<Rightarrow> Inl TypeError
      | Some x \<Rightarrow> (case local_date lib x of Inl e \<Rightarrow> Inl e | Inr d \<Rightarrow> Inr (strftime_ymd lib d)))"

text \<open>
  The key under which the bucketing loop files a datapoint: its truthy \<open>daystamp\<close>,
  else the local day of its \<open>timestamp\<close>; \<open>Inr None\<close> is the \<open>continue\<close> for a datapoint
  with neither.
\<close>

definition day_key :: "pylib \<Rightarrow> dp \<Rightarrow> error + pykey option" where
  "day_key lib d =
     (if get_truthy (dp_daystamp d)
      then (case py_key (get_default (dp_daystamp d) JNull) of
              Inl e \<Rightarrow> Inl e | Inr k \<Rightarrow> Inr (Some k))
      else if is_none (dp_timestamp d) then Inr None
      else (case daystamp_of_timestamp lib (get_default (dp_timestamp d) JNull) of
              Inl e \<Rightarrow> Inl e
            | Inr ds \<Rightarrow> (case py_key (JStr ds) of Inl e \<Rightarrow> Inl e | Inr k \<Rightarrow> Inr (Some k))))"

text \<open>\<open>by_day.get(k, [])\<close> on a dictionary kept as an association list in insertion order.\<close>

definition bucket :: "('k \<times> 'v list) list \<Rightarrow> 'k \<Rightarrow> 'v list" where
  "bucket by_day k = (case map_of by_day k of None \<Rightarrow> [] | Some ds \<Rightarrow> ds)"

text \<open>The loop \<open>for dp in dps: ... by_day[ds].append(dp)\<close> on a \<open>defaultdict(list)\<close>.\<close>

fun bucket_by_day :: "pylib \<Rightarrow> (pykey \<times> dp list) list \<Rightarrow> dp list \<Rightarrow> error + (pykey \<times> dp list) list" where
  "bucket_by_day lib by_day [] = Inr by_day"
| "bucket_by_day lib by_day (d # ds) =
     (case day_key lib d of
        Inl e \<Rightarrow> Inl e
      | Inr None \<Rightarrow> bucket_by_day lib by_day ds
      | Inr (Some k) \<Rightarrow> bucket_by_day lib (AList.update k (bucket by_day k @ [d]) by_day) ds)"

text \<open>
  The generator \<open>daterange\<close>: the dates it yields, and the \<open>OverflowError\<close> of
  \<open>cur + timedelta(days=1)\<close> past \<open>date.max\<close> if the loop reaches it.
\<close>

function daterange :: "int \<Rightarrow> int \<Rightarrow> int list \<times> error option" where
  "daterange cur end_date =
     (if cur \<le> end_date
      then (if date_max \<le> cur then ([cur], Some OverflowError)
            else (case daterange (cur + 1) end_date of (ds, e) \<Rightarrow> (cur # ds, e)))
      else ([], None))"
  by pat_completeness auto
termination
  by (relation "measure (\<lambda>(cur, end_date). nat (end_date + 1 - cur))") auto

declare daterange.simps [simp del]



section \<open>The range of days in \<open>main\<close>\<close>

text \<open>The timestamps that pass \<open>isinstance(dp.get("timestamp"), (int, float))\<close>.\<close>

definition numeric_timestamps :: "dp list \<Rightarrow> rat list" where
  "numeric_timestamps dps =
     List.map_filter (\<lambda>d. case dp_timestamp d of None \<Rightarrow> None | Some v \<Rightarrow> number_of v) dps"

text \<open>\<open>min(xs)\<close>; it raises \<open>ValueError\<close> on an empty list.\<close>

fun py_min :: "rat list \<Rightarrow> error + rat" where
  "py_min [] = Inl ValueError"
| "py_min (x # xs) = Inr (fold min xs x)"

text \<open>
  The start and end date that \<open>main\<close> determines from today's local date and the fetched
  source datapoints. Outside full-history mode, \<open>end_date - timedelta(days=HISTORY_DAYS - 1)\<close>
  raises \<open>OverflowError\<close> when it leaves the range of dates.
\<close>

definition determine_range :: "config \<Rightarrow> pylib \<Rightarrow> int \<Rightarrow> dp list \<Rightarrow> error + int \<times> int" where
  "determine_range cfg lib today fm_all =
     (let end_date = today
      in if FULL_HISTORY cfg
         then (let timestamps = numeric_timestamps fm_all
               in if timestamps \<noteq> []
                  then (case py_min timestamps of
                          Inl e \<Rightarrow> Inl e
                        | Inr earliest_ts \<Rightarrow>
                            (case local_date lib earliest_ts of
                               Inl e \<Rightarrow> Inl e
                             | Inr start_date \<Rightarrow> Inr (start_date, end_date)))
                  else Inr (end_date, end_date))
         else (let start_date = end_date - (HISTORY_DAYS cfg - 1)
               in if start_date < 1 \<or> date_max < start_date then Inl OverflowError
                  else Inr (start_date, end_date)))"

section \<open>Requests to the remote feed\<close>

text \<open>
  The three mutating requests, with the form data they carry: \<open>POST\<close> of a new
  datapoint (value, comment, day stamp and request id where the script sends them),
  \<open>PUT\<close> on a datapoint id (value, comment, day stamp if given) and \<open>DELETE\<close> of a
  datapoint id. The first component is the goal.
\<close>

datatype call =
    Create string int string "string option" "string option"
  | Update string jv int string "string option"
  | Delete string jv

text \<open>
  The remote feed answers a request, possibly depending on the requests sent before it
  in the run.
\<close>

type_synonym http = "call list \<Rightarrow> call \<Rightarrow> response"

text \<open>\<open>str(v)\<close> as an f-string renders it.\<close>

fun py_str :: "pylib \<Rightarrow> jv \<Rightarrow> string" where
  "py_str lib (JStr s) = s"
| "py_str lib (JInt n) = str_int n"
| "py_str lib (JBool b) = (if b then ''True'' else ''False'')"
| "py_str lib JNull = ''None''"
| "py_str lib v = str_of lib v"

text \<open>A field that the helper adds to the form data only \<open>if x:\<close>.\<close>

fun if_given :: "string option \<Rightarrow> string option" where
  "if_given None = None"
| "if_given (Some s) = (if s = [] then None else Some s)"

section \<open>The mutating API helpers of the history script\<close>

text \<open>
  Each helper takes the requests sent so far and returns its result with the requests
  sent after it; under \<open>DRY_RUN\<close> it returns before sending anything.
\<close>

definition add_datapoint ::
  "config \<Rightarrow> http \<Rightarrow> call list \<Rightarrow> string \<Rightarrow> int \<Rightarrow> string \<Rightarrow> string \<Rightarrow> string option
     \<Rightarrow> (error + jv) \<times> call list" where
  "add_datapoint cfg http sent goal v comment daystamp requestid =
     (if DRY_RUN cfg then (Inr (JObj []), sent)
      else (let req = Create goal v comment (Some daystamp) (if_given requestid);
                resp = http sent req
            in (case raise_for_status resp of
                  Inl e \<Rightarrow> Inl (RuntimeError (''POST '' @ goal @ '' '' @ daystamp @ '' -> ''
                                  @ str_int (status_code resp) @ '': '' @ text_body resp))
                | Inr u \<Rightarrow> resp_json resp,
                sent @ [req])))"

definition update_datapoint ::
  "config \<Rightarrow> pylib \<Rightarrow> http \<Rightarrow> call list \<Rightarrow> string \<Rightarrow> jv \<Rightarrow> int \<Rightarrow> string \<Rightarrow> string option
     \<Rightarrow> (error + jv) \<times> call list" where
  "update_datapoint cfg lib http sent goal ident v comment daystamp =
     (if DRY_RUN cfg then (Inr (JObj []), sent)
      else (let req = Update goal ident v comment (if_given daystamp);
                resp = http sent req
            in (case raise_for_status resp of
                  Inl e \<Rightarrow> Inl (RuntimeError (''PUT '' @ goal @ '' '' @ py_str lib ident @ '' -> ''
                                  @ str_int (status_code resp) @ '': '' @ text_body resp))
                | Inr u \<Rightarrow> resp_json resp,
                sent @ [req])))"

definition delete_datapoint ::
  "config \<Rightarrow> pylib \<Rightarrow> http \<Rightarrow> call list \<Rightarrow> string \<Rightarrow> jv \<Rightarrow> (error + bool) \<times> call list" where
  "delete_datapoint cfg lib http sent goal ident =
     (if DRY_RUN cfg then (Inr True, sent)
      else (let req = Delete goal ident;
                resp = http sent req
            in (case raise_for_status resp of
                  Inl e \<Rightarrow> Inl (RuntimeError (''DELETE '' @ goal @ '' '' @ py_str lib ident @ '' -> ''
                                  @ str_int (status_code resp) @ '': '' @ text_body resp))
                | Inr u \<Rightarrow> Inr True,
                sent @ [req])))"

section \<open>Recency, the keeper's value and the canonical comment\<close>

text \<open>
  \<open>float(n)\<close> for an integer: the nearest double, ties to even, as the rational it
  denotes; \<open>None\<close> is the \<open>OverflowError\<close> of an integer beyond the doubles.
\<close>

function bit_length :: "nat \<Rightarrow> nat" where
  "bit_length n = (if n = 0 then 0 else Suc (bit_length (n div 2)))"
  by pat_completeness auto
termination
  by (relation "measure id") auto

declare bit_length.simps [simp del]

definition float_of_int :: "int \<Rightarrow> rat option" where
  "float_of_int n =
     (let a = nat \<bar>n\<bar>
      in if a < 2 ^ 53 then Some (of_int n)
         else (let e = bit_length a - 53;
                   q = a div 2 ^ e;
                   r = a mod 2 ^ e;
                   half = 2 ^ (e - 1);
                   q' = (if r < half \<or> (r = half \<and> even q) then q else q + 1);
                   v = q' * 2 ^ e
               in if 2 ^ 1024 \<le> v then None else Some (of_int (sgn n * int v))))"

text \<open>
  \<open>_dp_updated_key\<close>: the parsed \<open>updated_at\<close> when it is a string that parses, else the
  \<open>timestamp\<close> as a float when it is a number, else zero.
\<close>

definition dp_updated_key :: "pylib \<Rightarrow> dp \<Rightarrow> error + rat" where
  "dp_updated_key lib d =
     (case (case dp_updated_at d of Some (JStr u) \<Rightarrow> iso_timestamp lib u | _ \<Rightarrow> None) of
        Some x \<Rightarrow> Inr x
      | None \<Rightarrow>
          (case dp_timestamp d of
             Some (JBool b) \<Rightarrow> Inr (if b then 1 else 0)
           | Some (JInt n) \<Rightarrow> (case float_of_int n of None \<Rightarrow> Inl OverflowError | Some x \<Rightarrow> Inr x)
           | Some (JFloat x) \<Rightarrow> Inr x
           | _ \<Rightarrow> Inr 0))"

text \<open>The keys of a list, computed in order before the sort; the first exception wins.\<close>

fun with_keys :: "pylib \<Rightarrow> dp list \<Rightarrow> error + (rat \<times> dp) list" where
  "with_keys lib [] = Inr []"
| "with_keys lib (d # ds) =
     (case dp_updated_key lib d of
        Inl e \<Rightarrow> Inl e
      | Inr k \<Rightarrow> (case with_keys lib ds of Inl e \<Rightarrow> Inl e | Inr kds \<Rightarrow> Inr ((k, d) # kds)))"

text \<open>
  \<open>sorted(dps, key=_dp_updated_key, reverse=True)\<close>: descending by key, records of equal
  key in their original order.
\<close>

definition sorted_newest_first :: "pylib \<Rightarrow> dp list \<Rightarrow> error + dp list" where
  "sorted_newest_first lib dps =
     (case with_keys lib dps of
        Inl e \<Rightarrow> Inl e
      | Inr kds \<Rightarrow> Inr (map snd (sort_key (\<lambda>kd. - fst kd) kds)))"

text \<open>
  \<open>float(keeper.get("value", 0))\<close> inside \<open>try\<close>, with \<open>0.0\<close> for any exception.
\<close>

definition keeper_value :: "pylib \<Rightarrow> dp \<Rightarrow> pyfloat" where
  "keeper_value lib keeper =
     (case get_default (dp_value keeper) (JInt 0) of
        JNull \<Rightarrow> Finite 0
      | JBool b \<Rightarrow> Finite (if b then 1 else 0)
      | JInt n \<Rightarrow> (case float_of_int n of None \<Rightarrow> Finite 0 | Some x \<Rightarrow> Finite x)
      | JFloat x \<Rightarrow> Finite x
      | JStr s \<Rightarrow> (case float_of_str lib s of None \<Rightarrow> Finite 0 | Some f \<Rightarrow> f)
      | JArr xs \<Rightarrow> Finite 0
      | JObj kvs \<Rightarrow> Finite 0)"

text \<open>\<open>round(x)\<close> of a float: the nearest integer, a tie going to the even one.\<close>

definition round_half_even :: "rat \<Rightarrow> int" where
  "round_half_even x =
     (let f = \<lfloor>x\<rfloor>; r = x - of_int f
      in if r < 1 / 2 then f else if 1 / 2 < r then f + 1 else if even f then f else f + 1)"

fun py_round :: "pyfloat \<Rightarrow> error + int" where
  "py_round (Finite x) = Inr (round_half_even x)"
| "py_round NaN = Inl ValueError"
| "py_round PosInf = Inl OverflowError"
| "py_round NegInf = Inl OverflowError"

text \<open>
  The canonical comment
  \<open>f"Auto: SoT={int(sot_val)} for {ds} (\<ge>50m by 09:15 check)."\<close>; the sign \<open>\<ge>\<close> is
  three bytes in UTF-8.
\<close>

definition comment_ok_of :: "int \<Rightarrow> string \<Rightarrow> string" where
  "comment_ok_of sot_val ds =
     ''Auto: SoT='' @ str_int sot_val @ '' for '' @ ds @ '' (''
       @ [CHR 0xE2, CHR 0x89, CHR 0xA5] @ ''50m by 09:15 check).''"

definition requestid_of :: "string \<Rightarrow> string" where
  "requestid_of ds = WAKEANDFOCUS_GOAL @ ''-'' @ ds @ ''-sot-v1''"

text \<open>\<open>keeper.get("comment") or ""\<close>\<close>

definition comment_or_empty :: "dp \<Rightarrow> jv" where
  "comment_or_empty d =
     (case dp_comment d of None \<Rightarrow> JStr [] | Some c \<Rightarrow> if py_truthy c then c else JStr [])"

section \<open>Reconciliation across history\<close>

text \<open>Sequencing of two effects: an exception of the first ends the run.\<close>

definition and_then ::
  "(error + 'a) \<times> call list \<Rightarrow> (call list \<Rightarrow> (error + 'b) \<times> call list) \<Rightarrow> (error + 'b) \<times> call list" where
  "and_then r f = (case r of (Inl e, sent) \<Rightarrow> (Inl e, sent) | (Inr a, sent) \<Rightarrow> f sent)"

text \<open>
  The loop \<open>for dp in dps: dp_id = dp.get("id"); if dp_id: delete_datapoint(...)\<close>, used
  for the extras of a day and for the days purged.
\<close>

fun delete_all :: "config \<Rightarrow> pylib \<Rightarrow> http \<Rightarrow> call list \<Rightarrow> dp list \<Rightarrow> (error + unit) \<times> call list" where
  "delete_all cfg lib http sent [] = (Inr (), sent)"
| "delete_all cfg lib http sent (d # ds) =
     (if get_truthy (dp_id d)
      then and_then (delete_datapoint cfg lib http sent WAKEANDFOCUS_GOAL (get_default (dp_id d) JNull))
             (\<lambda>sent'. delete_all cfg lib http sent' ds)
      else delete_all cfg lib http sent ds)"

text \<open>The body of the loop over the days of the source of truth.\<close>

definition reconcile_day ::
  "config \<Rightarrow> pylib \<Rightarrow> http \<Rightarrow> call list \<Rightarrow> (pykey \<times> dp list) list \<Rightarrow> string \<times> int
     \<Rightarrow> (error + unit) \<times> call list" where
  "reconcile_day cfg lib http sent wf_by_day day =
     (case day of (ds, sot_val) \<Rightarrow>
       (let comment_ok = comment_ok_of sot_val ds
        in case sorted_newest_first lib (bucket wf_by_day (KStr ds)) of
             Inl e \<Rightarrow> (Inl e, sent)
           | Inr [] \<Rightarrow>
               and_then (add_datapoint cfg http sent WAKEANDFOCUS_GOAL sot_val comment_ok ds
                           (Some (requestid_of ds)))
                 (\<lambda>sent'. (Inr (), sent'))
           | Inr (keeper # extras) \<Rightarrow>
               and_then (delete_all cfg lib http sent extras)
                 (\<lambda>sent'.
                    case py_round (keeper_value lib keeper) of
                      Inl e \<Rightarrow> (Inl e, sent')
                    | Inr rounded \<Rightarrow>
                        (let needs_value = (rounded \<noteq> sot_val);
                             needs_comment = (comment_or_empty keeper \<noteq> JStr comment_ok)
                         in if needs_value \<or> needs_comment
                            then (if get_truthy (dp_id keeper)
                                  then and_then
                                         (update_datapoint cfg lib http sent' WAKEANDFOCUS_GOAL
                                            (get_default (dp_id keeper) JNull) sot_val comment_ok (Some ds))
                                         (\<lambda>sent''. (Inr (), sent''))
                                  else (Inr (), sent'))
                            else (Inr (), sent')))))"

fun reconcile_days ::
  "config \<Rightarrow> pylib \<Rightarrow> http \<Rightarrow> call list \<Rightarrow> (pykey \<times> dp list) list \<Rightarrow> (string \<times> int) list
     \<Rightarrow> (error + unit) \<times> call list" where
  "reconcile_days cfg lib http sent wf_by_day [] = (Inr (), sent)"
| "reconcile_days cfg lib http sent wf_by_day (day # days) =
     and_then (reconcile_day cfg lib http sent wf_by_day day)
       (\<lambda>sent'. reconcile_days cfg lib http sent' wf_by_day days)"

text \<open>The purge loop over \<open>wf_by_day.items()\<close>, for the days not in \<open>sot_days\<close> (here \<open>sot_keys\<close>).\<close>

fun purge_days ::
  "config \<Rightarrow> pylib \<Rightarrow> http \<Rightarrow> call list \<Rightarrow> pykey list \<Rightarrow> (pykey \<times> dp list) list
     \<Rightarrow> (error + unit) \<times> call list" where
  "purge_days cfg lib http sent sot_keys [] = (Inr (), sent)"
| "purge_days cfg lib http sent sot_keys ((k, dps) # rest) =
     (if k \<notin> set sot_keys
      then and_then (delete_all cfg lib http sent dps)
             (\<lambda>sent'. purge_days cfg lib http sent' sot_keys rest)
      else purge_days cfg lib http sent sot_keys rest)"

text \<open>
  \<open>reconcile_history\<close> from the datapoints it has fetched for the target goal: the
  result of the run and the requests it sent, in order.
\<close>

definition reconcile_fetched ::
  "config \<Rightarrow> pylib \<Rightarrow> http \<Rightarrow> dp list \<Rightarrow> (string \<times> int) list \<Rightarrow> (error + unit) \<times> call list" where
  "reconcile_fetched cfg lib http wf_all sot_map =
     (case bucket_by_day lib [] wf_all of
        Inl e \<Rightarrow> (Inl e, [])
      | Inr wf_by_day \<Rightarrow>
          and_then (reconcile_days cfg lib http [] wf_by_day (sort sot_map))
            (\<lambda>sent.
               if STRICT_PURGE cfg
               then purge_days cfg lib http sent (map (\<lambda>day. KStr (fst day)) sot_map) wf_by_day
               else (Inr (), sent)))"

section \<open>The requests of a run, as a plan\<close>

text \<open>
  What a run does is fixed by the fetched datapoints alone, since the answers to the
  requests are only checked for failure: a list of requests, in order, possibly ended by
  an exception raised between requests.
\<close>

type_synonym plan = "call list \<times> error option"

definition plan_then :: "plan \<Rightarrow> plan \<Rightarrow> plan" where
  "plan_then p q = (case p of (cs, Some e) \<Rightarrow> (cs, Some e) | (cs, None) \<Rightarrow> (cs @ fst q, snd q))"

definition delete_plan :: "dp list \<Rightarrow> call list" where
  "delete_plan dps =
     map (\<lambda>d. Delete WAKEANDFOCUS_GOAL (get_default (dp_id d) JNull))
       (filter (\<lambda>d. get_truthy (dp_id d)) dps)"

definition needs_update :: "pylib \<Rightarrow> dp \<Rightarrow> int \<Rightarrow> string \<Rightarrow> bool" where
  "needs_update lib keeper sot_val ds =
     (py_round (keeper_value lib keeper) \<noteq> Inr sot_val
      \<or> comment_or_empty keeper \<noteq> JStr (comment_ok_of sot_val ds))"

definition update_plan :: "pylib \<Rightarrow> dp \<Rightarrow> int \<Rightarrow> string \<Rightarrow> call list" where
  "update_plan lib keeper sot_val ds =
     (if needs_update lib keeper sot_val ds \<and> get_truthy (dp_id keeper)
      then [Update WAKEANDFOCUS_GOAL (get_default (dp_id keeper) JNull) sot_val
              (comment_ok_of sot_val ds) (if_given (Some ds))]
      else [])"

definition day_plan :: "pylib \<Rightarrow> (pykey \<times> dp list) list \<Rightarrow> string \<times> int \<Rightarrow> plan" where
  "day_plan lib wf_by_day day =
     (case day of (ds, sot_val) \<Rightarrow>
        (case sorted_newest_first lib (bucket wf_by_day (KStr ds)) of
           Inl e \<Rightarrow> ([], Some e)
         | Inr [] \<Rightarrow>
             ([Create WAKEANDFOCUS_GOAL sot_val (comment_ok_of sot_val ds) (Some ds)
                 (if_given (Some (requestid_of ds)))], None)
         | Inr (keeper # extras) \<Rightarrow>
             (case py_round (keeper_value lib keeper) of
                Inl e \<Rightarrow> (delete_plan extras, Some e)
              | Inr rounded \<Rightarrow> (delete_plan extras @ update_plan lib keeper sot_val ds, None))))"

fun days_plan :: "pylib \<Rightarrow> (pykey \<times> dp list) list \<Rightarrow> (string \<times> int) list \<Rightarrow> plan" where
  "days_plan lib wf_by_day [] = ([], None)"
| "days_plan lib wf_by_day (day # days) =
     plan_then (day_plan lib wf_by_day day) (days_plan lib wf_by_day days)"

definition purge_plan :: "pykey list \<Rightarrow> (pykey \<times> dp list) list \<Rightarrow> call list" where
  "purge_plan sot_keys wf_by_day =
     concat (map (\<lambda>(k, dps). if k \<notin> set sot_keys then delete_plan dps else []) wf_by_day)"

definition reconcile_plan :: "config \<Rightarrow> pylib \<Rightarrow> dp list \<Rightarrow> (string \<times> int) list \<Rightarrow> plan" where
  "reconcile_plan cfg lib wf_all sot_map =
     (case bucket_by_day lib [] wf_all of
        Inl e \<Rightarrow> ([], Some e)
      | Inr wf_by_day \<Rightarrow>
          plan_then (days_plan lib wf_by_day (sort sot_map))
            (if STRICT_PURGE cfg
             then (purge_plan (map (\<lambda>day. KStr (fst day)) sot_map) wf_by_day, None)
             else ([], None)))"

text \<open>Sending one request of a plan through the helper that sends it.\<close>

fun perform :: "config \<Rightarrow> pylib \<Rightarrow> http \<Rightarrow> call list \<Rightarrow> call \<Rightarrow> (error + unit) \<times> call list" where
  "perform cfg lib http sent (Create goal v comment daystamp requestid) =
     and_then (add_datapoint cfg http sent goal v comment (case daystamp of None \<Rightarrow> [] | Some ds \<Rightarrow> ds) requestid)
       (\<lambda>sent'. (Inr (), sent'))"
| "perform cfg lib http sent (Update goal ident v comment daystamp) =
     and_then (update_datapoint cfg lib http sent goal ident v comment daystamp)
       (\<lambda>sent'. (Inr (), sent'))"
| "perform cfg lib http sent (Delete goal ident) =
     and_then (delete_datapoint cfg lib http sent goal ident) (\<lambda>sent'. (Inr (), sent'))"

fun run_calls :: "config \<Rightarrow> pylib \<Rightarrow> http \<Rightarrow> call list \<Rightarrow> call list \<Rightarrow> (error + unit) \<times> call list" where
  "run_calls cfg lib http sent [] = (Inr (), sent)"
| "run_calls cfg lib http sent (c # cs) =
     and_then (perform cfg lib http sent c) (\<lambda>sent'. run_calls cfg lib http sent' cs)"

definition run_plan :: "config \<Rightarrow> pylib \<Rightarrow> http \<Rightarrow> call list \<Rightarrow> plan \<Rightarrow> (error + unit) \<times> call list" where
  "run_plan cfg lib http sent p =
     and_then (run_calls cfg lib http sent (fst p))
       (\<lambda>sent'. case snd p of None \<Rightarrow> (Inr (), sent') | Some e \<Rightarrow> (Inl e, sent'))"

section \<open>The single-day script\<close>

text \<open>
  The helpers of the single-day script send no day stamp and let the \<open>HTTPError\<close> of
  \<open>raise_for_status\<close> pass.
\<close>

definition add_datapoint_today ::
  "config \<Rightarrow> http \<Rightarrow> call list \<Rightarrow> string \<Rightarrow> int \<Rightarrow> string \<Rightarrow> string option
     \<Rightarrow> (error + jv) \<times> call list" where
  "add_datapoint_today cfg http sent goal v comment requestid =
     (if DRY_RUN cfg then (Inr (JObj []), sent)
      else (let req = Create goal v comment None (if_given requestid);
                resp = http sent req
            in (case raise_for_status resp of Inl e \<Rightarrow> Inl e | Inr u \<Rightarrow> resp_json resp,
                sent @ [req])))"

definition update_datapoint_today ::
  "config \<Rightarrow> http \<Rightarrow> call list \<Rightarrow> string \<Rightarrow> jv \<Rightarrow> int \<Rightarrow> string \<Rightarrow> (error + jv) \<times> call list" where
  "update_datapoint_today cfg http sent goal ident v comment =
     (if DRY_RUN cfg then (Inr (JObj []), sent)
      else (let req = Update goal ident v comment None;
                resp = http sent req
            in (case raise_for_status resp of Inl e \<Rightarrow> Inl e | Inr u \<Rightarrow> resp_json resp,
                sent @ [req])))"

definition delete_datapoint_today ::
  "config \<Rightarrow> http \<Rightarrow> call list \<Rightarrow> string \<Rightarrow> jv \<Rightarrow> (error + bool) \<times> call list" where
  "delete_datapoint_today cfg http sent goal ident =
     (if DRY_RUN cfg then (Inr True, sent)
      else (let req = Delete goal ident;
                resp = http sent req
            in (case raise_for_status resp of Inl e \<Rightarrow> Inl e | Inr u \<Rightarrow> Inr True,
                sent @ [req])))"

text \<open>\<open>dp["id"]\<close>: a missing key raises \<open>KeyError\<close>.\<close>

definition subscript_id :: "dp \<Rightarrow> error + jv" where
  "subscript_id d = (case dp_id d of None \<Rightarrow> Inl (KeyError ''id'') | Some v \<Rightarrow> Inr v)"

text \<open>The sort key \<open>dp.get("updated_at") or dp.get("timestamp") or 0\<close>.\<close>

definition raw_key :: "dp \<Rightarrow> jv" where
  "raw_key d =
     (if get_truthy (dp_updated_at d) then get_default (dp_updated_at d) JNull
      else if get_truthy (dp_timestamp d) then get_default (dp_timestamp d) JNull
      else JInt 0)"

fun number_or_zero :: "jv \<Rightarrow> rat" where
  "number_or_zero v = (case number_of v of None \<Rightarrow> 0 | Some x \<Rightarrow> x)"

fun is_text :: "jv \<Rightarrow> bool" where
  "is_text (JStr s) = True"
| "is_text v = False"

fun text_of :: "jv \<Rightarrow> string" where
  "text_of (JStr s) = s"
| "text_of v = []"

text \<open>
  \<open>todays.sort(key=..., reverse=True)\<close>: the list is reversed, sorted stably and
  reversed again. Keys that are all numbers or all strings are ordered; a list of one
  record is never compared; numbers against strings raise \<open>TypeError\<close>, and so does
  every other mix in this model (for keys that are lists, what Python does depends on
  the comparisons the sort happens to make).
\<close>

definition sort_today :: "dp list \<Rightarrow> error + dp list" where
  "sort_today dps =
     (if length dps \<le> 1 then Inr dps
      else if list_all (\<lambda>d. number_of (raw_key d) \<noteq> None) dps
      then Inr (rev (sort_key (\<lambda>d. number_or_zero (raw_key d)) (rev dps)))
      else if list_all (\<lambda>d. is_text (raw_key d)) dps
      then Inr (rev (sort_key (\<lambda>d. text_of (raw_key d)) (rev dps)))
      else Inl TypeError)"

fun delete_extras_today ::
  "config \<Rightarrow> http \<Rightarrow> call list \<Rightarrow> dp list \<Rightarrow> (error + unit) \<times> call list" where
  "delete_extras_today cfg http sent [] = (Inr (), sent)"
| "delete_extras_today cfg http sent (d # ds) =
     (case subscript_id d of
        Inl e \<Rightarrow> (Inl e, sent)
      | Inr ident \<Rightarrow>
          and_then (delete_datapoint_today cfg http sent WAKEANDFOCUS_GOAL ident)
            (\<lambda>sent'. delete_extras_today cfg http sent' ds))"

definition update_keeper_today ::
  "config \<Rightarrow> http \<Rightarrow> call list \<Rightarrow> dp \<Rightarrow> int \<Rightarrow> string \<Rightarrow> (error + unit) \<times> call list" where
  "update_keeper_today cfg http sent keeper sot_value comment_ok =
     (case subscript_id keeper of
        Inl e \<Rightarrow> (Inl e, sent)
      | Inr ident \<Rightarrow>
          and_then (update_datapoint_today cfg http sent WAKEANDFOCUS_GOAL ident sot_value comment_ok)
            (\<lambda>sent'. (Inr (), sent')))"

text \<open>
  \<open>reconcile_beeminder_with_sot\<close> from the datapoints fetched for the target goal.
\<close>

definition reconcile_beeminder_with_sot ::
  "config \<Rightarrow> pylib \<Rightarrow> http \<Rightarrow> call list \<Rightarrow> dp list \<Rightarrow> string \<Rightarrow> int \<Rightarrow> (error + unit) \<times> call list" where
  "reconcile_beeminder_with_sot cfg lib http sent dps daystamp sot_value =
     (let todays = filter (\<lambda>d. dp_daystamp d = Some (JStr daystamp)) dps;
          comment_ok = comment_ok_of sot_value daystamp
      in case sort_today todays of
           Inl e \<Rightarrow> (Inl e, sent)
         | Inr [] \<Rightarrow>
             and_then (add_datapoint_today cfg http sent WAKEANDFOCUS_GOAL sot_value comment_ok
                         (Some (requestid_of daystamp)))
               (\<lambda>sent'. (Inr (), sent'))
         | Inr (keeper # extras) \<Rightarrow>
             and_then (delete_extras_today cfg http sent extras)
               (\<lambda>sent'.
                  case py_round (keeper_value lib keeper) of
                    Inl e \<Rightarrow> (Inl e, sent')
                  | Inr rounded \<Rightarrow>
                      if rounded \<noteq> sot_value
                      then update_keeper_today cfg http sent' keeper sot_value comment_ok
                      else if comment_or_empty keeper \<noteq> JStr comment_ok
                      then update_keeper_today cfg http sent' keeper sot_value comment_ok
                      else (Inr (), sent')))"

section \<open>The remote collection\<close>

text \<open>
  Modelled from the spec: the remote feed itself is not part of the repository. Its
  collection of target datapoints changes with the requests it accepts as the
  specification's data model and external interface describe: a create adds a datapoint
  with the value, comment and day stamp sent, under an id of the server's choice
  (\<open>mint\<close>); an update overwrites the value and comment, and the day stamp when one is
  sent, of the datapoint with that id; a delete removes the datapoint with that id.
\<close>

fun stamp_field :: "string option \<Rightarrow> jv option \<Rightarrow> jv option" where
  "stamp_field None old = old"
| "stamp_field (Some ds) old = Some (JStr ds)"

definition overwrite :: "int \<Rightarrow> string \<Rightarrow> string option \<Rightarrow> dp \<Rightarrow> dp" where
  "overwrite v comment daystamp x =
     x\<lparr>dp_value := Some (JInt v), dp_comment := Some (JStr comment),
       dp_daystamp := stamp_field daystamp (dp_daystamp x)\<rparr>"

definition new_record :: "jv \<Rightarrow> int \<Rightarrow> string \<Rightarrow> string option \<Rightarrow> dp" where
  "new_record ident v comment daystamp =
     overwrite v comment daystamp (dp_empty\<lparr>dp_id := Some ident\<rparr>)"

fun remote_step :: "(dp list \<Rightarrow> call \<Rightarrow> jv) \<Rightarrow> dp list \<Rightarrow> call \<Rightarrow> dp list" where
  "remote_step mint remote (Create goal v comment daystamp requestid) =
     remote @ [new_record (mint remote (Create goal v comment daystamp requestid)) v comment daystamp]"
| "remote_step mint remote (Update goal ident v comment daystamp) =
     map (\<lambda>x. if dp_id x = Some ident then overwrite v comment daystamp x else x) remote"
| "remote_step mint remote (Delete goal ident) =
     filter (\<lambda>x. dp_id x \<noteq> Some ident) remote"

definition remote_after :: "(dp list \<Rightarrow> call \<Rightarrow> jv) \<Rightarrow> dp list \<Rightarrow> call list \<Rightarrow> dp list" where
  "remote_after mint remote sent = foldl (remote_step mint) remote sent"

section \<open>Predicates used in the statements\<close>



text \<open>
  A record qualifies, in the words of the specification: its comment parses to at least
  50 minutes with a start time of hour below 9, or hour 9 and minute at most 15.
\<close>

definition record_qualifies :: "pylib \<Rightarrow> dp \<Rightarrow> bool" where
  "record_qualifies lib d =
     (case parse_comment_for_length_and_time lib (get_default (dp_comment d) (JStr [])) of
        Inr (Some (minutes, hour, minute)) \<Rightarrow>
          minutes \<ge> 50 \<and> (hour < 9 \<or> (hour = 9 \<and> minute \<le> 15))
      | _ \<Rightarrow> False)"

text \<open>
  The parser returns on the comment of a record: the comment is text (or falsy), and no
  group of digits in it is longer than the limit beyond which \<open>int\<close> raises \<open>ValueError\<close>.
\<close>

definition comment_parses :: "pylib \<Rightarrow> dp \<Rightarrow> bool" where
  "comment_parses lib d =
     (case parse_comment_for_length_and_time lib (get_default (dp_comment d) (JStr [])) of
        Inl e \<Rightarrow> False
      | Inr r \<Rightarrow> True)"

text \<open>
  The comment of a record is text of at most as many characters as \<open>int\<close> accepts digits.
\<close>

definition comment_short_text :: "pylib \<Rightarrow> dp \<Rightarrow> bool" where
  "comment_short_text lib d =
     (case dp_comment d of
        None \<Rightarrow> True
      | Some (JStr s) \<Rightarrow>
          int_max_str_digits lib = 0 \<or> length (utf8_chars s) \<le> int_max_str_digits lib
      | Some c \<Rightarrow> \<not> py_truthy c)"




text \<open>
  A remote feed that accepts every request: no 4xx or 5xx status, and a JSON body.
\<close>

definition accepted :: "response \<Rightarrow> bool" where
  "accepted resp = (raise_for_status resp = Inr () \<and> json_body resp \<noteq> None)"

definition accepts :: "http \<Rightarrow> bool" where
  "accepts http = (\<forall>sent req. accepted (http sent req))"

text \<open>A request in the form in which the history script's helpers send it.\<close>

fun sent_form :: "call \<Rightarrow> bool" where
  "sent_form (Create goal v comment daystamp requestid) =
     (daystamp \<noteq> None \<and> if_given requestid = requestid)"
| "sent_form (Update goal ident v comment daystamp) = (if_given daystamp = daystamp)"
| "sent_form (Delete goal ident) = True"

fun is_delete :: "call \<Rightarrow> bool" where
  "is_delete (Delete goal ident) = True"
| "is_delete c = False"

text \<open>A datapoint that the purge deletes: it carries an id and is filed under a key not in \<open>keys\<close>.\<close>

definition purged_record :: "pylib \<Rightarrow> pykey list \<Rightarrow> dp \<Rightarrow> bool" where
  "purged_record lib keys d =
     (get_truthy (dp_id d) \<and> (\<exists>k. day_key lib d = Inr (Some k) \<and> k \<notin> set keys))"

text \<open>
  The recency of a datapoint in the words of the specification: the parsed last-updated
  timestamp if present and parseable, otherwise the numeric timestamp if present,
  otherwise zero.
\<close>

definition parsed_updated_at :: "pylib \<Rightarrow> dp \<Rightarrow> rat option" where
  "parsed_updated_at lib d =
     (case dp_updated_at d of Some (JStr u) \<Rightarrow> iso_timestamp lib u | _ \<Rightarrow> None)"

definition numeric_timestamp :: "dp \<Rightarrow> rat option" where
  "numeric_timestamp d = (case dp_timestamp d of None \<Rightarrow> None | Some v \<Rightarrow> number_of v)"

definition recency_key :: "pylib \<Rightarrow> dp \<Rightarrow> rat" where
  "recency_key lib d =
     (case parsed_updated_at lib d of
        Some x \<Rightarrow> x
      | None \<Rightarrow> (case numeric_timestamp d of Some t \<Rightarrow> t | None \<Rightarrow> 0))"

text \<open>An integer timestamp that a double holds exactly.\<close>

definition timestamp_exact :: "dp \<Rightarrow> bool" where
  "timestamp_exact d = (case dp_timestamp d of Some (JInt n) \<Rightarrow> \<bar>n\<bar> < 2 ^ 53 | _ \<Rightarrow> True)"

text \<open>
  A collection that has converged on a source of truth: every datapoint can be filed,
  each day of the source of truth holds exactly one datapoint, whose recency key can be
  computed and which needs no update, and, under the strict purge, no datapoint with an
  id is filed under another day.
\<close>

definition day_settled :: "pylib \<Rightarrow> dp list \<Rightarrow> string \<times> int \<Rightarrow> bool" where
  "day_settled lib remote day =
     (case filter (\<lambda>x. day_key lib x = Inr (Some (KStr (fst day)))) remote of
        [y] \<Rightarrow> (case dp_updated_key lib y of Inl e \<Rightarrow> False | Inr k \<Rightarrow> True)
               \<and> \<not> needs_update lib y (snd day) (fst day)
      | _ \<Rightarrow> False)"

definition converged :: "config \<Rightarrow> pylib \<Rightarrow> (string \<times> int) list \<Rightarrow> dp list \<Rightarrow> bool" where
  "converged cfg lib sot_map remote =
     (list_all (\<lambda>y. case day_key lib y of Inl e \<Rightarrow> False | Inr k \<Rightarrow> True) remote
      \<and> list_all (day_settled lib remote) sot_map
      \<and> (STRICT_PURGE cfg \<longrightarrow>
           list_all (\<lambda>y. \<not> purged_record lib (map (\<lambda>day. KStr (fst day)) sot_map) y) remote))"

text \<open>The ids that the updates and deletions of a list of requests name.\<close>

fun target_id :: "call \<Rightarrow> jv option" where
  "target_id (Create goal v comment daystamp requestid) = None"
| "target_id (Update goal ident v comment daystamp) = Some ident"
| "target_id (Delete goal ident) = Some ident"

fun is_create :: "call \<Rightarrow> bool" where
  "is_create (Create goal v comment daystamp requestid) = True"
| "is_create c = False"

text \<open>The value, comment and day stamp of the datapoint that a creation adds.\<close>

fun create_fields :: "call \<Rightarrow> jv option \<times> jv option \<times> jv option" where
  "create_fields (Create goal v comment daystamp requestid) =
     (Some (JInt v), Some (JStr comment), stamp_field daystamp None)"
| "create_fields c = (None, None, None)"

definition dp_fields :: "dp \<Rightarrow> jv option \<times> jv option \<times> jv option" where
  "dp_fields z = (dp_value z, dp_comment z, dp_daystamp z)"

text \<open>A datapoint whose id some deletion of the list names.\<close>

definition killed :: "call list \<Rightarrow> dp \<Rightarrow> bool" where
  "killed cs x = (\<exists>goal ident. Delete goal ident \<in> set cs \<and> dp_id x = Some ident)"

text \<open>The updates of the list that name a datapoint's id, applied to it in order.\<close>

fun apply_update :: "dp \<Rightarrow> call \<Rightarrow> dp" where
  "apply_update x (Update goal ident v comment daystamp) =
     (if dp_id x = Some ident then overwrite v comment daystamp x else x)"
| "apply_update x c = x"

definition updated :: "call list \<Rightarrow> dp \<Rightarrow> dp" where
  "updated cs x = foldl apply_update x cs"

text \<open>The datapoints that the creations of the list add, from a given collection on.\<close>

fun created :: "(dp list \<Rightarrow> call \<Rightarrow> jv) \<Rightarrow> dp list \<Rightarrow> call list \<Rightarrow> dp list" where
  "created mint remote [] = []"
| "created mint remote (Create goal v comment daystamp requestid # cs) =
     new_record (mint remote (Create goal v comment daystamp requestid)) v comment daystamp
       # created mint (remote_step mint remote (Create goal v comment daystamp requestid)) cs"
| "created mint remote (c # cs) = created mint (remote_step mint remote c) cs"

section \<open>A library instance and datapoints for the examples\<close>

text \<open>
  The day stamp of an ordinal in the proleptic Gregorian calendar, four digits of year,
  two of month, two of day.
\<close>

definition zero_pad :: "nat \<Rightarrow> string \<Rightarrow> string" where
  "zero_pad n s = replicate (n - length s) CHR ''0'' @ s"

definition gregorian_ymd :: "int \<Rightarrow> string" where
  "gregorian_ymd ordinal =
     (let z = ordinal + 305;
          era = z div 146097;
          doe = z mod 146097;
          yoe = (doe - doe div 1460 + doe div 36524 - doe div 146096) div 365;
          doy = doe - (365 * yoe + yoe div 4 - yoe div 100);
          mp = (5 * doy + 2) div 153;
          d = doy - (153 * mp + 2) div 5 + 1;
          m = (if mp < 10 then mp + 3 else mp - 9);
          y = yoe + era * 400 + (if m \<le> 2 then 1 else 0)
      in zero_pad 4 (str_int y) @ zero_pad 2 (str_int m) @ zero_pad 2 (str_int d))"

text \<open>
  A library whose local time is five hours behind UTC all year, whose ISO parser knows
  two instants, and whose \<open>float\<close> reads two strings.
\<close>

text \<open>
  The character classes of the instance are those of CPython 3.11 on the characters up
  to U+00FF, on the whitespace characters, on the Arabic-Indic digits U+0660 to U+0669
  and on the three letters beyond U+00FF that match \<open>i\<close> or \<open>s\<close> when case is ignored;
  any other character is in no class.
\<close>

definition example_space :: "pychar \<Rightarrow> bool" where
  "example_space c =
     (c \<in> set [[CHR 0x09], [CHR 0x0A], [CHR 0x0B], [CHR 0x0C], [CHR 0x0D],
               [CHR 0x1C], [CHR 0x1D], [CHR 0x1E], [CHR 0x1F], [CHR 0x20],
               [CHR 0xC2, CHR 0x85], [CHR 0xC2, CHR 0xA0], [CHR 0xE1, CHR 0x9A, CHR 0x80],
               [CHR 0xE2, CHR 0x80, CHR 0x80], [CHR 0xE2, CHR 0x80, CHR 0x81],
               [CHR 0xE2, CHR 0x80, CHR 0x82], [CHR 0xE2, CHR 0x80, CHR 0x83],
               [CHR 0xE2, CHR 0x80, CHR 0x84], [CHR 0xE2, CHR 0x80, CHR 0x85],
               [CHR 0xE2, CHR 0x80, CHR 0x86], [CHR 0xE2, CHR 0x80, CHR 0x87],
               [CHR 0xE2, CHR 0x80, CHR 0x88], [CHR 0xE2, CHR 0x80, CHR 0x89],
               [CHR 0xE2, CHR 0x80, CHR 0x8A], [CHR 0xE2, CHR 0x80, CHR 0xA8],
               [CHR 0xE2, CHR 0x80, CHR 0xA9], [CHR 0xE2, CHR 0x80, CHR 0xAF],
               [CHR 0xE2, CHR 0x81, CHR 0x9F], [CHR 0xE3, CHR 0x80, CHR 0x80]])"

definition example_decimal :: "pychar \<Rightarrow> nat option" where
  "example_decimal c =
     (case c of
        [d] \<Rightarrow> if 0x30 \<le> (of_char d :: nat) \<and> (of_char d :: nat) \<le> 0x39
               then Some (of_char d - 0x30) else None
      | [l, d] \<Rightarrow> if l = CHR 0xD9 \<and> 0xA0 \<le> (of_char d :: nat) \<and> (of_char d :: nat) \<le> 0xA9
                  then Some (of_char d - 0xA0) else None
      | _ \<Rightarrow> None)"

definition example_alnum :: "pychar \<Rightarrow> bool" where
  "example_alnum c =
     (example_decimal c \<noteq> None \<or>
      (case c of
         [a] \<Rightarrow> (0x41 \<le> (of_char a :: nat) \<and> (of_char a :: nat) \<le> 0x5A)
                \<or> (0x61 \<le> (of_char a :: nat) \<and> (of_char a :: nat) \<le> 0x7A)
       | [l, a] \<Rightarrow>
           (l = CHR 0xC4 \<and> (a = CHR 0xB0 \<or> a = CHR 0xB1))
           \<or> (l = CHR 0xC5 \<and> a = CHR 0xBF)
           \<or> (l = CHR 0xC2 \<and> a \<in> set [CHR 0xAA, CHR 0xB2, CHR 0xB3, CHR 0xB5, CHR 0xB9, CHR 0xBA,
                                      CHR 0xBC, CHR 0xBD, CHR 0xBE])
           \<or> (l = CHR 0xC3 \<and> 0x80 \<le> (of_char a :: nat) \<and> (of_char a :: nat) \<le> 0xBF
               \<and> a \<noteq> CHR 0x97 \<and> a \<noteq> CHR 0xB7)
       | _ \<Rightarrow> False))"

definition example_ignorecase :: "char \<Rightarrow> pychar \<Rightarrow> bool" where
  "example_ignorecase l c =
     (c = [l] \<or> c = [char_of ((of_char l :: nat) - 0x20)]
      \<or> (l = CHR ''i'' \<and> (c = [CHR 0xC4, CHR 0xB0] \<or> c = [CHR 0xC4, CHR 0xB1]))
      \<or> (l = CHR ''s'' \<and> c = [CHR 0xC5, CHR 0xBF]))"

definition example_lib :: pylib where
  "example_lib =
     \<lparr>local_date = (\<lambda>ts. Inr (719163 + (\<lfloor>ts\<rfloor> - 18000) div 86400)),
      strftime_ymd = gregorian_ymd,
      iso_timestamp = map_of [(''2025-01-02T12:00:00Z'', 1735819200),
                              (''2025-01-03T12:00:00Z'', 1735905600)],
      float_of_str = map_of [(''1'', Finite 1), (''nan'', NaN)],
      str_of = (\<lambda>v. ''?''),
      re_space = example_space,
      re_decimal = example_decimal,
      re_alnum = example_alnum,
      re_ignorecase = example_ignorecase,
      int_max_str_digits = 4300\<rparr>"

text \<open>A configuration with mutations enabled.\<close>

definition example_cfg :: config where
  "example_cfg = \<lparr>USERNAME = ''user'', AUTH_TOKEN = Some ''token'', DRY_RUN = False,
                  FULL_HISTORY = False, STRICT_PURGE = False, HISTORY_DAYS = 90\<rparr>"

text \<open>The same with the strict purge switched on.\<close>

definition purge_cfg :: config where
  "purge_cfg = example_cfg\<lparr>STRICT_PURGE := True\<rparr>"

text \<open>A remote feed that answers every request with status 200 and an empty object.\<close>

definition ok_http :: http where
  "ok_http = (\<lambda>sent req. \<lparr>status_code = 200, text_body = ''{}'', json_body = Some (JObj [])\<rparr>)"

section \<open>Properties\<close>

subsection \<open>The outcome loop\<close>

lemma greedy_split: "(g, r) \<in> set (greedy P s) \<Longrightarrow> s = g @ r"
  by (induction s arbitrary: g) (auto split: if_splits)

lemma between_split: "(g, r) \<in> set (between P m n s) \<Longrightarrow> s = g @ r"
  by (auto simp: between_def dest: greedy_split)

lemma at_least_one_split: "(g, r) \<in> set (at_least_one P s) \<Longrightarrow> s = g @ r"
  by (auto simp: at_least_one_def dest: greedy_split)

lemma literal_length: "literal lib l s = Some r \<Longrightarrow> length r \<le> length s"
  by (induction lib l s rule: literal.induct) (auto split: if_splits)

lemma optional_s_length: "r \<in> set (optional_s lib s) \<Longrightarrow> length r \<le> length s"
  by (auto simp: optional_s_def split: list.splits if_splits)

lemma clock_groups_length:
  assumes "(g2, g3) \<in> set (clock_groups lib s)"
  shows "length g2 \<le> length s \<and> length g3 \<le> length s"
proof -
  from assms obtain r c r' r'' where 1: "(g2, r) \<in> set (between (is_digit lib) 1 2 s)"
    and 2: "r = c # r'" and 3: "(g3, r'') \<in> set (between (is_digit lib) 2 2 r')"
    by (auto simp: clock_groups_def set_list_bind split: list.splits if_splits)
  from between_split[OF 1] between_split[OF 3] 2 show ?thesis by simp
qed

lemma after_minutes_length:
  assumes "(g2, g3) \<in> set (after_minutes lib s)"
  shows "length g2 \<le> length s \<and> length g3 \<le> length s"
proof -
  from assms obtain r1 r2 sp2 r3 r4 sp3 r5 r6 sp4 r7 where
    a: "Some r1 = literal lib ''minute'' s" "r2 \<in> set (optional_s lib r1)"
      "(sp2, r3) \<in> set (at_least_one (re_space lib) r2)"
      "Some r4 = literal lib ''session'' r3"
      "(sp3, r5) \<in> set (at_least_one (re_space lib) r4)"
      "Some r6 = literal lib ''at'' r5"
      "(sp4, r7) \<in> set (at_least_one (re_space lib) r6)"
      "(g2, g3) \<in> set (clock_groups lib r7)"
    unfolding after_minutes_def by (auto simp: set_list_bind split: option.splits)
  from literal_length[OF a(1)[symmetric]] optional_s_length[OF a(2)] at_least_one_split[OF a(3)]
    literal_length[OF a(4)[symmetric]] at_least_one_split[OF a(5)]
    literal_length[OF a(6)[symmetric]]
    at_least_one_split[OF a(7)] clock_groups_length[OF a(8)]
  show ?thesis by simp
qed

lemma COMMENT_RE_matches_length:
  assumes "(g1, g2, g3) \<in> set (COMMENT_RE_matches lib s)"
  shows "length g1 \<le> length (utf8_chars s) \<and> length g2 \<le> length (utf8_chars s)
       \<and> length g3 \<le> length (utf8_chars s)"
proof -
  from assms obtain sp0 r0 r1 sp1 r2 where
    a: "(sp0, r0) \<in> set (greedy (re_space lib) (utf8_chars s))"
      "(g1, r1) \<in> set (at_least_one (is_digit lib) r0)"
      "(sp1, r2) \<in> set (greedy (re_space lib) r1)"
      "(g2, g3) \<in> set (after_minutes lib r2)"
    unfolding COMMENT_RE_matches_def by (auto simp: set_list_bind)
  from greedy_split[OF a(1)] at_least_one_split[OF a(2)] greedy_split[OF a(3)]
    after_minutes_length[OF a(4)]
  show ?thesis by simp
qed

lemma py_int_short:
  "int_max_str_digits lib = 0 \<or> length g \<le> int_max_str_digits lib \<Longrightarrow> \<exists>n. py_int lib g = Some n"
  by (auto simp: py_int_def)

lemma or_empty_text: "(if py_truthy (JStr s) then JStr s else JStr []) = JStr s"
  by simp

lemma parse_short_text:
  assumes "int_max_str_digits lib = 0 \<or> length (utf8_chars s) \<le> int_max_str_digits lib"
  shows "\<exists>r. parse_comment_for_length_and_time lib (JStr s) = Inr r"
proof (cases "COMMENT_RE_search lib s")
  case None
  then show ?thesis
    unfolding parse_comment_for_length_and_time_def or_empty_text by simp
next
  case (Some m)
  obtain g1 g2 g3 where m: "m = (g1, g2, g3)" by (cases m)
  from Some m have "(g1, g2, g3) \<in> set (COMMENT_RE_matches lib s)"
    by (auto simp: COMMENT_RE_search_def split: list.splits)
  from COMMENT_RE_matches_length[OF this] assms
  have "int_max_str_digits lib = 0 \<or> length g1 \<le> int_max_str_digits lib"
    "int_max_str_digits lib = 0 \<or> length g2 \<le> int_max_str_digits lib"
    "int_max_str_digits lib = 0 \<or> length g3 \<le> int_max_str_digits lib"
    by auto
  then obtain n1 n2 n3 where "py_int lib g1 = Some n1" "py_int lib g2 = Some n2"
    "py_int lib g3 = Some n3"
    using py_int_short by blast
  with Some m show ?thesis
    unfolding parse_comment_for_length_and_time_def or_empty_text by simp
qed

lemma short_text_parses: "comment_short_text lib d \<Longrightarrow> comment_parses lib d"
proof -
  assume a: "comment_short_text lib d"
  have e: "\<exists>r. parse_comment_for_length_and_time lib (JStr []) = Inr r"
    by (rule parse_short_text) simp
  have "\<exists>r. parse_comment_for_length_and_time lib (get_default (dp_comment d) (JStr [])) = Inr r"
  proof (cases "dp_comment d")
    case None
    with e show ?thesis by simp
  next
    case (Some c)
    show ?thesis
    proof (cases c)
      case (JStr s)
      with a Some have "int_max_str_digits lib = 0 \<or> length (utf8_chars s) \<le> int_max_str_digits lib"
        by (simp add: comment_short_text_def)
      from parse_short_text[OF this] Some JStr show ?thesis by simp
    qed (use a Some e in \<open>auto simp: comment_short_text_def parse_comment_for_length_and_time_def\<close>)
  qed
  then show ?thesis by (auto simp: comment_parses_def)
qed

lemma parse_overlong_raises:
  assumes "COMMENT_RE_search lib s = Some (g1, g2, g3)"
    and "int_max_str_digits lib \<noteq> 0" "int_max_str_digits lib < length g1"
  shows "parse_comment_for_length_and_time lib (JStr s) = Inl ValueError"
  using assms
  unfolding parse_comment_for_length_and_time_def or_empty_text
  by (simp add: py_int_def)



text \<open>
  Where the parser raises on a comment, the loop raises if it reaches that record: after
  a qualifying record it is not reached, before one it is.
\<close>

lemma day_outcome_raises_when_reached:
  assumes "record_qualifies lib a"
    and "parse_comment_for_length_and_time lib (get_default (dp_comment b) (JStr [])) = Inl e"
  shows "day_outcome lib [a, b] = Inr 1" and "day_outcome lib [b, a] = Inl e"
proof -
  from assms(1) obtain m h mi where
    p: "parse_comment_for_length_and_time lib (get_default (dp_comment a) (JStr []))
          = Inr (Some (m, h, mi))"
    and q: "m \<ge> 50" "h < 9 \<or> (h = 9 \<and> mi \<le> 15)"
    by (auto simp: record_qualifies_def split: sum.splits option.splits)
  from q have "m \<ge> MIN_SESSION_MINUTES \<and> qualifies_time h mi"
    by (simp add: MIN_SESSION_MINUTES_def qualifies_time_def CUTOFF_HOUR_def CUTOFF_MINUTE_def)
  with p show "day_outcome lib [a, b] = Inr 1" by simp
  from assms(2) show "day_outcome lib [b, a] = Inl e" by simp
qed

subsection \<open>Bucketing and the date range\<close>

lemma daterange_upto:
  "end_date < date_max \<Longrightarrow> daterange cur end_date = ([cur..end_date], None)"
proof (induction cur end_date rule: daterange.induct)
  case (1 cur end_date)
  show ?case
  proof (cases "cur \<le> end_date")
    case True
    with 1 have "daterange (cur + 1) end_date = ([cur + 1..end_date], None)" by simp
    with True 1(2) show ?thesis
      by (subst daterange.simps) (simp add: upto_rec1)
  next
    case False
    then show ?thesis by (subst daterange.simps) simp
  qed
qed

lemma bucket_update: "bucket (AList.update k v al) k' = (if k' = k then v else bucket al k')"
  by (simp add: bucket_def update_conv')

lemma bucket_by_day_filter:
  "bucket_by_day lib acc dps = Inr by_day \<Longrightarrow>
   bucket by_day k = bucket acc k @ filter (\<lambda>d. day_key lib d = Inr (Some k)) dps"
proof (induction dps arbitrary: acc)
  case Nil
  then show ?case by simp
next
  case (Cons d dps)
  then show ?case
    by (auto simp: bucket_update split: sum.splits option.splits)
qed


lemma bucket_by_day_total:
  "\<forall>d\<in>set dps. \<exists>k. day_key lib d = Inr k \<Longrightarrow> \<exists>by_day. bucket_by_day lib acc dps = Inr by_day"
proof (induction dps arbitrary: acc)
  case Nil
  then show ?case by simp
next
  case (Cons d dps)
  then obtain k where k: "day_key lib d = Inr k" by auto
  from Cons have "\<And>acc'. \<exists>by_day. bucket_by_day lib acc' dps = Inr by_day" by simp
  with k show ?case by (cases k) auto
qed

subsection \<open>A run sends the requests of its plan\<close>

lemma and_then_simps [simp]:
  "and_then (Inl e, sent) f = (Inl e, sent)"
  "and_then (Inr a, sent) f = f sent"
  by (simp_all add: and_then_def)

lemma and_then_assoc:
  "and_then (and_then r f) g = and_then r (\<lambda>sent. and_then (f sent) g)"
  by (cases r; cases "fst r") (auto simp: and_then_def split: sum.splits prod.splits)

lemma and_then_return [simp]: "and_then r (\<lambda>sent. (Inr (), sent)) = r" for r :: "(error + unit) \<times> call list"
  by (cases r; cases "fst r") (auto simp: and_then_def split: sum.splits)

lemma run_calls_append:
  "run_calls cfg lib http sent (cs @ ds) =
   and_then (run_calls cfg lib http sent cs) (\<lambda>sent'. run_calls cfg lib http sent' ds)"
  by (induction cs arbitrary: sent) (simp_all add: and_then_assoc)

lemma if_given_idem [simp]: "if_given (if_given x) = if_given x"
  by (cases x) auto

lemma perform_delete:
  "perform cfg lib http sent (Delete goal i) =
   and_then (delete_datapoint cfg lib http sent goal i) (\<lambda>sent'. (Inr (), sent'))"
  by simp

lemma delete_all_plan:
  "delete_all cfg lib http sent dps = run_calls cfg lib http sent (delete_plan dps)"
proof (induction dps arbitrary: sent)
  case Nil
  then show ?case by (simp add: delete_plan_def)
next
  case (Cons d dps)
  have ih: "\<And>s. delete_all cfg lib http s dps = run_calls cfg lib http s (delete_plan dps)"
    using Cons by simp
  show ?case
  proof (cases "get_truthy (dp_id d)")
    case True
    then have "delete_plan (d # dps) = Delete WAKEANDFOCUS_GOAL (get_default (dp_id d) JNull) # delete_plan dps"
      by (simp add: delete_plan_def)
    with True ih show ?thesis
      by (simp add: and_then_assoc)
  next
    case False
    then have "delete_plan (d # dps) = delete_plan dps" by (simp add: delete_plan_def)
    with False ih show ?thesis by simp
  qed
qed

lemma run_plan_then:
  "run_plan cfg lib http sent (plan_then p q) =
   and_then (run_plan cfg lib http sent p) (\<lambda>sent'. run_plan cfg lib http sent' q)"
proof (cases p)
  case (Pair cs eo)
  show ?thesis
  proof (cases eo)
    case None
    with Pair show ?thesis
      by (simp add: run_plan_def plan_then_def run_calls_append and_then_assoc)
  next
    case (Some e)
    with Pair show ?thesis
      by (cases "run_calls cfg lib http sent cs"; cases "fst (run_calls cfg lib http sent cs)")
         (auto simp: run_plan_def plan_then_def and_then_def split: sum.splits)
  qed
qed

lemma run_plan_calls [simp]: "run_plan cfg lib http sent (cs, None) = run_calls cfg lib http sent cs"
  by (simp add: run_plan_def)

lemma run_plan_raise: "run_plan cfg lib http sent ([], Some e) = (Inl e, sent)"
  by (simp add: run_plan_def)

lemma requestid_nonempty [simp]: "requestid_of ds \<noteq> []"
  by (simp add: requestid_of_def WAKEANDFOCUS_GOAL_def)

lemma reconcile_day_plan:
  "reconcile_day cfg lib http sent wf_by_day day = run_plan cfg lib http sent (day_plan lib wf_by_day day)"
proof (cases day)
  case (Pair ds sot_val)
  show ?thesis
  proof (cases "sorted_newest_first lib (bucket wf_by_day (KStr ds))")
    case (Inl e)
    with Pair show ?thesis
      by (simp add: reconcile_day_def day_plan_def run_plan_raise)
  next
    case (Inr existing)
    show ?thesis
    proof (cases existing)
      case Nil
      with Inr Pair show ?thesis
        by (simp add: reconcile_day_def day_plan_def)
    next
      case (Cons keeper extras)
      show ?thesis
      proof (cases "py_round (keeper_value lib keeper)")
        case (Inl e)
        with Cons Inr Pair show ?thesis
          by (simp add: reconcile_day_def day_plan_def run_plan_def delete_all_plan)
      next
        case r: (Inr rounded)
        have u: "run_calls cfg lib http s (update_plan lib keeper sot_val ds) =
           (if (rounded \<noteq> sot_val \<or> comment_or_empty keeper \<noteq> JStr (comment_ok_of sot_val ds))
            then (if get_truthy (dp_id keeper)
                  then and_then (update_datapoint cfg lib http s WAKEANDFOCUS_GOAL
                                   (get_default (dp_id keeper) JNull) sot_val (comment_ok_of sot_val ds) (Some ds))
                         (\<lambda>sent''. (Inr (), sent''))
                  else (Inr (), s))
            else (Inr (), s))" for s
          using r by (auto simp: update_plan_def needs_update_def update_datapoint_def)
        from Cons Inr Pair r show ?thesis
          by (simp add: reconcile_day_def day_plan_def delete_all_plan run_calls_append u Let_def
              cong: if_cong)
      qed
    qed
  qed
qed

lemma reconcile_days_plan:
  "reconcile_days cfg lib http sent wf_by_day days =
   run_plan cfg lib http sent (days_plan lib wf_by_day days)"
  by (induction days arbitrary: sent) (simp_all add: run_plan_then reconcile_day_plan)

lemma purge_days_plan:
  "purge_days cfg lib http sent sot_keys wf_by_day =
   run_calls cfg lib http sent (purge_plan sot_keys wf_by_day)"
proof (induction wf_by_day arbitrary: sent)
  case Nil
  then show ?case by (simp add: purge_plan_def)
next
  case (Cons kd rest)
  obtain k dps where kd: "kd = (k, dps)" by (cases kd)
  have ih: "\<And>s. purge_days cfg lib http s sot_keys rest = run_calls cfg lib http s (purge_plan sot_keys rest)"
    using Cons by simp
  have p: "purge_plan sot_keys ((k, dps) # rest) =
      (if k \<notin> set sot_keys then delete_plan dps else []) @ purge_plan sot_keys rest"
    by (simp add: purge_plan_def)
  show ?case
    unfolding kd p by (simp add: ih delete_all_plan run_calls_append)
qed

lemma reconcile_fetched_runs_plan:
  "reconcile_fetched cfg lib http wf_all sot_map =
   run_plan cfg lib http [] (reconcile_plan cfg lib wf_all sot_map)"
proof (cases "bucket_by_day lib [] wf_all")
  case (Inl e)
  then show ?thesis
    by (simp add: reconcile_fetched_def reconcile_plan_def run_plan_raise)
next
  case (Inr wf_by_day)
  then show ?thesis
    by (simp add: reconcile_fetched_def reconcile_plan_def run_plan_then reconcile_days_plan
        purge_days_plan cong: if_cong)
qed

lemma perform_dry: "DRY_RUN cfg \<Longrightarrow> perform cfg lib http sent c = (Inr (), sent)"
  by (cases c) (simp_all add: add_datapoint_def update_datapoint_def delete_datapoint_def)

lemma run_calls_dry: "DRY_RUN cfg \<Longrightarrow> run_calls cfg lib http sent cs = (Inr (), sent)"
  by (induction cs arbitrary: sent) (simp_all add: perform_dry)

lemma perform_accepted:
  assumes "\<not> DRY_RUN cfg" "accepts http" "sent_form c"
  shows "perform cfg lib http sent c = (Inr (), sent @ [c])"
proof -
  have a: "raise_for_status (http sent r) = Inr ()" "\<exists>j. json_body (http sent r) = Some j" for r
    using assms(2) by (auto simp: accepts_def accepted_def)
  show ?thesis
  proof (cases c)
    case (Create goal v comment daystamp requestid)
    with assms(3) obtain ds where "daystamp = Some ds" "if_given requestid = requestid" by auto
    with Create assms(1) a[of c] show ?thesis
      by (auto simp: add_datapoint_def resp_json_def Let_def)
  next
    case (Update goal ident v comment daystamp)
    with assms(3) have "if_given daystamp = daystamp" by simp
    with Update assms(1) a[of c] show ?thesis
      by (auto simp: update_datapoint_def resp_json_def Let_def)
  next
    case (Delete goal ident)
    with assms(1) a[of c] show ?thesis
      by (auto simp: delete_datapoint_def Let_def)
  qed
qed

lemma run_calls_accepted:
  assumes "\<not> DRY_RUN cfg" "accepts http"
  shows "\<forall>c\<in>set cs. sent_form c \<Longrightarrow> run_calls cfg lib http sent cs = (Inr (), sent @ cs)"
  by (induction cs arbitrary: sent) (simp_all add: perform_accepted[OF assms])

lemma sent_form_delete_plan: "\<forall>c\<in>set (delete_plan dps). sent_form c"
  by (auto simp: delete_plan_def)

lemma sent_form_update_plan: "\<forall>c\<in>set (update_plan lib keeper sot_val ds). sent_form c"
  by (auto simp: update_plan_def)

lemma round_half_even_nearest: "\<bar>x - of_int (round_half_even x)\<bar> \<le> 1 / 2"
proof -
  have "of_int \<lfloor>x\<rfloor> \<le> x" "x < of_int \<lfloor>x\<rfloor> + 1" by linarith+
  then show ?thesis
    by (auto simp: round_half_even_def Let_def)
qed

subsection \<open>Evaluations used by the examples\<close>




lemma parse_unicode_examples:
  "parse_comment_for_length_and_time example_lib
     (JStr (''55 minutes session at 08:00'' @ [CHR 0xC3, CHR 0xA9])) = Inr None"
  "parse_comment_for_length_and_time example_lib
     (JStr ([CHR 0xD9, CHR 0xA5, CHR 0xD9, CHR 0xA5] @ '' minutes session at ''
            @ [CHR 0xD9, CHR 0xA0, CHR 0xD9, CHR 0xA8] @ '':''
            @ [CHR 0xD9, CHR 0xA0, CHR 0xD9, CHR 0xA0])) = Inr (Some (55, 8, 0))"
  "parse_comment_for_length_and_time example_lib
     (JStr (''55'' @ [CHR 0xC2, CHR 0xA0] @ ''minutes session at 08:00'')) = Inr (Some (55, 8, 0))"
  "parse_comment_for_length_and_time example_lib
     (JStr (''55 MINUTE SESS'' @ [CHR 0xC4, CHR 0xB0] @ ''ON AT 8:00 sharp'')) = Inr (Some (55, 8, 0))"
  "parse_comment_for_length_and_time example_lib (JStr ''55 minutes session at 08:000'') = Inr None"
  "parse_comment_for_length_and_time example_lib (JStr ''55 minutes session at 24:00'') = Inr None"
  "parse_comment_for_length_and_time example_lib
     (JStr (''55 minute'' @ [CHR 0xC5, CHR 0xBF] @ '' session at 08:00'')) = Inr (Some (55, 8, 0))"
  "parse_comment_for_length_and_time example_lib (JStr ''55 minutes session at 08:00_'') = Inr None"
  "parse_comment_for_length_and_time example_lib
     (JStr (''55 minutes session at 08:00'' @ [CHR 0xC2, CHR 0xB2])) = Inr None"
  "parse_comment_for_length_and_time example_lib
     (JStr (''55 minutes'' @ [CHR 0xE2, CHR 0x80, CHR 0x83] @ ''session''
            @ [CHR 0xE3, CHR 0x80, CHR 0x80] @ ''at'' @ [CHR 0xC2, CHR 0x85] @ ''08:00''))
   = Inr (Some (55, 8, 0))"
  by code_simp+


lemma accepts_ok_http: "accepts ok_http"
  by (simp add: accepts_def accepted_def ok_http_def raise_for_status_def)

lemma not_dry_example: "\<not> DRY_RUN example_cfg"
  by (simp add: example_cfg_def)

lemma dp_empty_fields [simp]:
  "dp_id dp_empty = None" "dp_daystamp dp_empty = None" "dp_timestamp dp_empty = None"
  "dp_updated_at dp_empty = None" "dp_value dp_empty = None" "dp_comment dp_empty = None"
  by (simp_all add: dp_empty_def)

lemma float_of_int_small: "\<bar>n\<bar> < 2 ^ 53 \<Longrightarrow> float_of_int n = Some (of_int n)"
  by (simp add: float_of_int_def Let_def nat_less_iff)

subsection \<open>The sort by recency\<close>

lemma key_recency:
  "timestamp_exact d \<Longrightarrow> dp_updated_key lib d = Inr (recency_key lib d)"
  by (auto simp: dp_updated_key_def recency_key_def parsed_updated_at_def numeric_timestamp_def
      timestamp_exact_def float_of_int_small split: option.splits jv.splits)

lemma with_keys_recency:
  "\<forall>d\<in>set b. timestamp_exact d \<Longrightarrow> with_keys lib b = Inr (map (\<lambda>d. (recency_key lib d, d)) b)"
  by (induction b) (simp_all add: key_recency)

lemma sort_key_decorated_aux:
  "sort_key (\<lambda>kd. g (fst kd)) (map (\<lambda>d. (k d, d)) xs) =
   map (\<lambda>d. (k d, d)) (sort_key (\<lambda>d. g (k d)) xs)"
proof (induction xs)
  case Nil
  then show ?case by simp
next
  case (Cons x xs)
  have "insort_key (\<lambda>kd. g (fst kd)) (k x, x) (map (\<lambda>d. (k d, d)) ys) =
        map (\<lambda>d. (k d, d)) (insort_key (\<lambda>d. g (k d)) x ys)" for ys
    by (induction ys) simp_all
  with Cons show ?case by simp
qed

lemma sort_key_decorated:
  "map snd (sort_key (\<lambda>kd. g (fst kd)) (map (\<lambda>d. (k d, d)) xs)) = sort_key (\<lambda>d. g (k d)) xs"
  by (simp add: sort_key_decorated_aux comp_def)

lemma sorted_newest_first_recency:
  assumes "\<forall>d\<in>set b. timestamp_exact d"
  shows "sorted_newest_first lib b = Inr (sort_key (\<lambda>d. - recency_key lib d) b)"
  using sort_key_decorated[of uminus "recency_key lib" b]
  by (simp add: sorted_newest_first_def with_keys_recency[OF assms])

lemma sort_key_head_least:
  assumes "xs \<noteq> []"
  shows "\<exists>y ys. sort_key f xs = y # ys \<and> (\<forall>z\<in>set xs. f y \<le> f z) \<and> mset (y # ys) = mset xs"
proof -
  from assms have "sort_key f xs \<noteq> []"
    by (metis length_0_conv length_sort)
  then obtain y ys where e: "sort_key f xs = y # ys" by (cases "sort_key f xs") auto
  have "sorted (map f (sort_key f xs))" by (rule sorted_sort_key)
  with e have "\<forall>z\<in>set ys. f y \<le> f z" by simp
  moreover have "set xs = set (y # ys)" using e by (metis set_sort)
  moreover have "mset (y # ys) = mset xs" using e by (metis mset_sort)
  ultimately show ?thesis using e by auto
qed

lemma update_plan_no_delete: "\<forall>c\<in>set (update_plan lib keeper sot_val ds). \<not> is_delete c"
  by (simp add: update_plan_def)

lemma run_plan_accepted:
  assumes "\<not> DRY_RUN cfg" "accepts http" "\<forall>c\<in>set cs. sent_form c"
  shows "snd (run_plan cfg lib http sent (cs, eo)) = sent @ cs"
  using run_calls_accepted[OF assms] by (cases eo) (simp_all add: run_plan_def)

subsection \<open>The purge\<close>

lemma delete_plan_append: "delete_plan (xs @ ys) = delete_plan xs @ delete_plan ys"
  by (simp add: delete_plan_def)

lemma purge_plan_Cons:
  "purge_plan keys ((k, dps) # rest) =
   (if k \<notin> set keys then delete_plan dps else []) @ purge_plan keys rest"
  by (simp add: purge_plan_def)

lemma purge_plan_Nil: "purge_plan keys [] = []"
  by (simp add: purge_plan_def)

lemma purge_plan_update:
  "mset (purge_plan keys (AList.update k (bucket acc k @ [d]) acc)) =
   mset (purge_plan keys acc) + mset (if k \<notin> set keys then delete_plan [d] else [])"
proof (induction acc)
  case Nil
  then show ?case by (simp add: purge_plan_Cons purge_plan_Nil bucket_def)
next
  case (Cons p acc)
  obtain k' v' where p: "p = (k', v')" by (cases p)
  show ?case
  proof (cases "k' = k")
    case True
    with p show ?thesis
      by (simp add: purge_plan_Cons bucket_def delete_plan_append)
  next
    case False
    then have "bucket (p # acc) k = bucket acc k" by (simp add: bucket_def p)
    with False p Cons show ?thesis
      by (simp add: purge_plan_Cons)
  qed
qed

lemma purge_plan_buckets:
  "bucket_by_day lib acc dps = Inr wf_by_day \<Longrightarrow>
   mset (purge_plan keys wf_by_day) =
   mset (purge_plan keys acc) +
   mset (map (\<lambda>d. Delete WAKEANDFOCUS_GOAL (get_default (dp_id d) JNull))
          (filter (purged_record lib keys) dps))"
proof (induction dps arbitrary: acc)
  case Nil
  then show ?case by simp
next
  case (Cons d dps)
  show ?case
  proof (cases "day_key lib d")
    case (Inl e)
    with Cons.prems show ?thesis by simp
  next
    case (Inr ko)
    show ?thesis
    proof (cases ko)
      case None
      with Inr Cons show ?thesis by (simp add: purged_record_def)
    next
      case (Some k)
      with Inr Cons.prems have "bucket_by_day lib (AList.update k (bucket acc k @ [d]) acc) dps = Inr wf_by_day"
        by simp
      from Cons.IH[OF this] Some Inr show ?thesis
        by (simp add: purge_plan_update purged_record_def delete_plan_def)
    qed
  qed
qed

lemma not_dry_purge: "\<not> DRY_RUN purge_cfg"
  by (simp add: purge_cfg_def example_cfg_def)

subsection \<open>A converged collection needs no request\<close>

lemma sorted_newest_first_single:
  "dp_updated_key lib y = Inr k \<Longrightarrow> sorted_newest_first lib [y] = Inr [y]"
  by (simp add: sorted_newest_first_def)

lemma delete_plan_Nil [simp]: "delete_plan [] = []"
  by (simp add: delete_plan_def)

lemma needs_update_round:
  "\<not> needs_update lib y sv ds \<Longrightarrow> py_round (keeper_value lib y) = Inr sv"
  by (simp add: needs_update_def)

lemma day_plan_settled:
  assumes "bucket_by_day lib [] remote = Inr wfd" and "day_settled lib remote day"
  shows "day_plan lib wfd day = ([], None)"
proof -
  obtain ds sv where day: "day = (ds, sv)" by (cases day)
  have bk: "bucket wfd (KStr ds) = filter (\<lambda>d. day_key lib d = Inr (Some (KStr ds))) remote"
    using bucket_by_day_filter[OF assms(1), of "KStr ds"] by (simp add: bucket_def)
  from assms(2) obtain y k where y: "filter (\<lambda>x. day_key lib x = Inr (Some (KStr ds))) remote = [y]"
    and k: "dp_updated_key lib y = Inr k" and n: "\<not> needs_update lib y sv ds"
    by (auto simp: day_settled_def day split: list.splits sum.splits)
  have s: "sorted_newest_first lib (bucket wfd (KStr ds)) = Inr [y]"
    unfolding bk y by (rule sorted_newest_first_single[OF k])
  show ?thesis
    unfolding day using n needs_update_round[OF n]
    by (simp add: day_plan_def s update_plan_def)
qed

lemma days_plan_settled:
  assumes "bucket_by_day lib [] remote = Inr wfd"
  shows "\<forall>day\<in>set days. day_settled lib remote day \<Longrightarrow> days_plan lib wfd days = ([], None)"
  by (induction days) (simp_all add: day_plan_settled[OF assms] plan_then_def)

lemma converged_plan:
  assumes "converged cfg lib sot_map remote"
  shows "reconcile_plan cfg lib remote sot_map = ([], None)"
proof -
  let ?keys = "map (\<lambda>day. KStr (fst day)) sot_map"
  have "\<exists>k. day_key lib d = Inr k" if "d \<in> set remote" for d
    using assms that by (cases "day_key lib d") (auto simp: converged_def list_all_iff)
  then have "\<forall>d\<in>set remote. \<exists>k. day_key lib d = Inr k" by blast
  then obtain wfd where b: "bucket_by_day lib [] remote = Inr wfd"
    using bucket_by_day_total by blast
  from assms have "\<forall>day\<in>set (sort sot_map). day_settled lib remote day"
    by (simp add: converged_def list_all_iff)
  then have d: "days_plan lib wfd (sort sot_map) = ([], None)"
    by (rule days_plan_settled[OF b])
  have p: "purge_plan ?keys wfd = []" if "STRICT_PURGE cfg"
  proof -
    from assms that have "filter (purged_record lib ?keys) remote = []"
      by (auto simp: converged_def list_all_iff filter_empty_conv)
    with purge_plan_buckets[OF b, of ?keys] show ?thesis
      by (simp add: purge_plan_Nil)
  qed
  show ?thesis
    using b d p by (simp add: reconcile_plan_def plan_then_def)
qed

lemma converged_no_requests:
  assumes "converged cfg lib sot_map remote"
  shows "reconcile_fetched cfg lib http remote sot_map = (Inr (), [])"
  by (simp add: reconcile_fetched_runs_plan converged_plan[OF assms])

subsection \<open>The remote collection after a list of requests\<close>

lemma overwrite_id [simp]: "dp_id (overwrite v c d x) = dp_id x"
  by (simp add: overwrite_def)

lemma apply_update_id [simp]: "dp_id (apply_update x c) = dp_id x"
  by (cases c) simp_all

lemma updated_Nil [simp]: "updated [] x = x"
  by (simp add: updated_def)

lemma updated_Cons: "updated (c # cs) x = updated cs (apply_update x c)"
  by (simp add: updated_def)

lemma updated_id [simp]: "dp_id (updated cs x) = dp_id x"
  by (induction cs arbitrary: x) (simp_all add: updated_Cons)

lemma killed_Nil [simp]: "\<not> killed [] x"
  by (simp add: killed_def)

lemma killed_Cons:
  "killed (c # cs) x \<longleftrightarrow> (is_delete c \<and> target_id c = dp_id x) \<or> killed cs x"
  by (cases c) (fastforce simp: killed_def)+

lemma killed_by_id: "dp_id x = dp_id y \<Longrightarrow> killed cs x = killed cs y"
  by (simp add: killed_def)

lemma remote_after_Cons:
  "remote_after mint r (c # cs) = remote_after mint (remote_step mint r c) cs"
  by (simp add: remote_after_def)

lemma new_record_id [simp]: "dp_id (new_record i v c d) = Some i"
  by (simp add: new_record_def)

lemma updated_untargeted:
  "dp_id x \<notin> target_id ` set cs \<Longrightarrow> updated cs x = x"
proof (induction cs arbitrary: x)
  case Nil
  then show ?case by simp
next
  case (Cons c cs)
  then have "apply_update x c = x" by (cases c) auto
  with Cons show ?case by (simp add: updated_Cons)
qed

lemma killed_untargeted:
  "dp_id x \<notin> target_id ` set cs \<Longrightarrow> \<not> killed cs x"
  by (force simp: killed_def)

lemma remote_after_closed_form:
  assumes "\<forall>r c. Some (mint r c) \<notin> target_id ` set cs"
  shows "remote_after mint r cs =
         map (updated cs) (filter (\<lambda>x. \<not> killed cs x) r) @ created mint r cs"
  using assms
proof (induction cs arbitrary: r)
  case Nil
  then show ?case by (simp add: remote_after_def)
next
  case (Cons c cs)
  from Cons.prems have fresh: "\<forall>r c. Some (mint r c) \<notin> target_id ` set cs" by auto
  have ih: "remote_after mint (remote_step mint r c) cs =
         map (updated cs) (filter (\<lambda>x. \<not> killed cs x) (remote_step mint r c))
           @ created mint (remote_step mint r c) cs"
    by (rule Cons.IH[OF fresh])
  show ?case
  proof (cases c)
    case (Create goal v comment daystamp requestid)
    let ?z = "new_record (mint r c) v comment daystamp"
    have zt: "dp_id ?z \<notin> target_id ` set cs"
      using fresh by simp
    have "filter (\<lambda>x. \<not> killed cs x) (r @ [?z]) = filter (\<lambda>x. \<not> killed cs x) r @ [?z]"
      using killed_untargeted[OF zt] by simp
    moreover have "updated cs ?z = ?z"
      by (rule updated_untargeted[OF zt])
    moreover have "\<And>x. killed (c # cs) x = killed cs x" "\<And>x. updated (c # cs) x = updated cs x"
      using Create by (simp_all add: killed_Cons updated_Cons)
    ultimately show ?thesis
      unfolding remote_after_Cons ih using Create by simp
  next
    case (Update goal ident v comment daystamp)
    let ?u = "\<lambda>x. if dp_id x = Some ident then overwrite v comment daystamp x else x"
    have k: "\<And>x. killed cs (?u x) = killed cs x"
      by (rule killed_by_id) simp
    have "filter (\<lambda>x. \<not> killed cs x) (map ?u r) = map ?u (filter (\<lambda>x. \<not> killed cs x) r)"
      by (simp add: filter_map comp_def k)
    moreover have "\<And>x. killed (c # cs) x = killed cs x" "\<And>x. updated (c # cs) x = updated cs (?u x)"
      using Update by (simp_all add: killed_Cons updated_Cons)
    ultimately show ?thesis
      unfolding remote_after_Cons ih using Update by (simp add: comp_def)
  next
    case (Delete goal ident)
    have "\<And>x. killed (c # cs) x = (dp_id x = Some ident \<or> killed cs x)"
      "\<And>x. updated (c # cs) x = updated cs x"
      using Delete by (auto simp: killed_Cons updated_Cons)
    then show ?thesis
      unfolding remote_after_Cons ih using Delete by (simp add: conj_commute)
  qed
qed

lemma stamp_field_idem [simp]: "stamp_field d (stamp_field d old) = stamp_field d old"
  by (cases d) simp_all

lemma overwrite_idem [simp]: "overwrite v c d (overwrite v c d x) = overwrite v c d x"
  by (simp add: overwrite_def)

lemma updated_uniform_fixed:
  assumes "\<forall>g i v' c' d'. Update g i v' c' d' \<in> set cs \<and> dp_id x = Some i
             \<longrightarrow> v' = v \<and> c' = cm \<and> d' = d"
  shows "updated cs (overwrite v cm d x) = overwrite v cm d x"
  using assms
proof (induction cs)
  case Nil
  then show ?case by simp
next
  case (Cons c cs)
  have "apply_update (overwrite v cm d x) c = overwrite v cm d x"
  proof (cases c)
    case (Update g i v' c' d')
    show ?thesis
    proof (cases "dp_id x = Some i")
      case True
      with Cons.prems Update have "v' = v \<and> c' = cm \<and> d' = d" by simp
      with Update True show ?thesis by simp
    next
      case False
      with Update show ?thesis by simp
    qed
  qed simp_all
  moreover from Cons.prems have "\<forall>g i v' c' d'. Update g i v' c' d' \<in> set cs \<and> dp_id x = Some i
             \<longrightarrow> v' = v \<and> c' = cm \<and> d' = d" by auto
  ultimately show ?case using Cons.IH by (simp add: updated_Cons)
qed

lemma updated_uniform:
  assumes "\<forall>g i v' c' d'. Update g i v' c' d' \<in> set cs \<and> dp_id x = Some i
             \<longrightarrow> v' = v \<and> c' = cm \<and> d' = d"
  shows "updated cs x =
         (if \<exists>g i v' c' d'. Update g i v' c' d' \<in> set cs \<and> dp_id x = Some i
          then overwrite v cm d x else x)"
  using assms
proof (induction cs)
  case Nil
  then show ?case by simp
next
  case (Cons c cs)
  from Cons.prems have u: "\<forall>g i v' c' d'. Update g i v' c' d' \<in> set cs \<and> dp_id x = Some i
             \<longrightarrow> v' = v \<and> c' = cm \<and> d' = d" by auto
  show ?case
  proof (cases "\<exists>g i v' c' d'. c = Update g i v' c' d' \<and> dp_id x = Some i")
    case True
    then obtain g i v' c' d' where c: "c = Update g i v' c' d'" and i: "dp_id x = Some i" by blast
    with Cons.prems have "v' = v \<and> c' = cm \<and> d' = d" by simp
    with c i have "apply_update x c = overwrite v cm d x" by simp
    moreover have "\<exists>g i v' c' d'. Update g i v' c' d' \<in> set (c # cs) \<and> dp_id x = Some i"
      using c i by (intro exI[of _ g] exI[of _ i] exI[of _ v'] exI[of _ c'] exI[of _ d']) simp
    ultimately show ?thesis using updated_uniform_fixed[OF u]
      by (simp only: updated_Cons if_True)
  next
    case False
    then have a: "apply_update x c = x" by (cases c) auto
    from False have "(\<exists>g i v' c' d'. Update g i v' c' d' \<in> set (c # cs) \<and> dp_id x = Some i)
        = (\<exists>g i v' c' d'. Update g i v' c' d' \<in> set cs \<and> dp_id x = Some i)"
      by (simp only: set_simps insert_iff) blast
    with Cons.IH[OF u] a show ?thesis by (simp add: updated_Cons)
  qed
qed

lemma created_new_records:
  "z \<in> set (created mint r cs) \<Longrightarrow> \<exists>i v c d. z = new_record i v c d"
proof (induction cs arbitrary: r)
  case Nil
  then show ?case by simp
next
  case (Cons c cs)
  then show ?case by (cases c) auto
qed

lemma created_fields:
  "map dp_fields (created mint r cs) = map create_fields (filter is_create cs)"
proof (induction cs arbitrary: r)
  case Nil
  then show ?case by simp
next
  case (Cons c cs)
  then show ?case
    by (cases c) (simp_all add: dp_fields_def new_record_def overwrite_def)
qed

lemma distinct_singleton: "distinct xs \<Longrightarrow> set xs = {a} \<Longrightarrow> xs = [a]"
proof -
  assume d: "distinct xs" and s: "set xs = {a}"
  then have "length xs = 1" using distinct_card[OF d] by simp
  with s show ?thesis by (cases xs) auto
qed

lemma concat_for_key:
  assumes "distinct (map fst days)" and "(k, v) \<in> set days"
  shows "concat (map (\<lambda>day. if fst day = k then g day else []) days) = g (k, v)"
  using assms
proof (induction days)
  case Nil
  then show ?case by simp
next
  case (Cons day days)
  show ?case
  proof (cases "day = (k, v)")
    case True
    with Cons.prems have "\<forall>d\<in>set days. fst d \<noteq> k" by force
    then have "concat (map (\<lambda>day. if fst day = k then g day else []) days) = []"
      by (induction days) simp_all
    with True show ?thesis by simp
  next
    case False
    with Cons.prems have m: "(k, v) \<in> set days" by auto
    then have "k \<in> fst ` set days" by force
    with Cons.prems have "fst day \<noteq> k" by auto
    with Cons m show ?thesis by simp
  qed
qed

lemma filter_concat_map:
  "filter P (concat (map g xs)) = concat (map (\<lambda>x. filter P (g x)) xs)"
  by (induction xs) simp_all

subsection \<open>The plan of a run that completes\<close>

lemma with_keys_result:
  "with_keys lib b = Inr kds \<Longrightarrow>
   map snd kds = b \<and> (\<forall>x\<in>set b. \<exists>k. dp_updated_key lib x = Inr k)"
proof (induction b arbitrary: kds)
  case Nil
  then show ?case by simp
next
  case (Cons d b)
  then show ?case
    by (auto split: sum.splits)
qed

lemma sorted_newest_first_result:
  assumes "sorted_newest_first lib b = Inr srt"
  shows "mset srt = mset b" and "\<forall>x\<in>set b. \<exists>k. dp_updated_key lib x = Inr k"
proof -
  from assms obtain kds where k: "with_keys lib b = Inr kds"
    and s: "srt = map snd (sort_key (\<lambda>kd. - fst kd) kds)"
    by (auto simp: sorted_newest_first_def split: sum.splits)
  from with_keys_result[OF k] have m: "map snd kds = b"
    and e: "\<forall>x\<in>set b. \<exists>k. dp_updated_key lib x = Inr k" by auto
  have "mset srt = image_mset snd (mset (sort_key (\<lambda>kd. - fst kd) kds))"
    unfolding s by simp
  also have "\<dots> = image_mset snd (mset kds)" by simp
  also have "\<dots> = mset (map snd kds)" by simp
  finally show "mset srt = mset b" using m by simp
  from e show "\<forall>x\<in>set b. \<exists>k. dp_updated_key lib x = Inr k" .
qed

lemma day_plan_success:
  assumes "snd (day_plan lib wfd (ds, sv)) = None"
  shows "(sorted_newest_first lib (bucket wfd (KStr ds)) = Inr []
          \<and> fst (day_plan lib wfd (ds, sv)) =
              [Create WAKEANDFOCUS_GOAL sv (comment_ok_of sv ds) (Some ds)
                 (if_given (Some (requestid_of ds)))])
       \<or> (\<exists>keeper extras rv.
            sorted_newest_first lib (bucket wfd (KStr ds)) = Inr (keeper # extras)
          \<and> py_round (keeper_value lib keeper) = Inr rv
          \<and> fst (day_plan lib wfd (ds, sv)) = delete_plan extras @ update_plan lib keeper sv ds)"
  using assms
  by (auto simp: day_plan_def split: sum.splits list.splits)

lemma days_plan_success:
  "days_plan lib wfd days = (dcs, None) \<Longrightarrow>
   (\<forall>day\<in>set days. snd (day_plan lib wfd day) = None)
   \<and> dcs = concat (map (\<lambda>day. fst (day_plan lib wfd day)) days)"
proof (induction days arbitrary: dcs)
  case Nil
  then show ?case by simp
next
  case (Cons day days)
  obtain c1 e1 where d1: "day_plan lib wfd day = (c1, e1)" by (cases "day_plan lib wfd day")
  obtain c2 e2 where d2: "days_plan lib wfd days = (c2, e2)" by (cases "days_plan lib wfd days")
  from Cons.prems d1 d2 have e: "e1 = None" "e2 = None" "dcs = c1 @ c2"
    by (auto simp: plan_then_def split: option.splits)
  with Cons.IH[of c2] d1 d2 show ?case by simp
qed

lemma reconcile_plan_success:
  assumes "reconcile_plan cfg lib wf_all sot = (cs, None)"
  shows "\<exists>wfd. bucket_by_day lib [] wf_all = Inr wfd
       \<and> (\<forall>day\<in>set sot. snd (day_plan lib wfd day) = None)
       \<and> cs = concat (map (\<lambda>day. fst (day_plan lib wfd day)) (sort sot))
              @ (if STRICT_PURGE cfg then purge_plan (map (\<lambda>day. KStr (fst day)) sot) wfd else [])"
proof -
  from assms obtain wfd where b: "bucket_by_day lib [] wf_all = Inr wfd"
    by (auto simp: reconcile_plan_def split: sum.splits)
  obtain dcs e where d: "days_plan lib wfd (sort sot) = (dcs, e)"
    by (cases "days_plan lib wfd (sort sot)")
  from assms b d have e: "e = None"
    and c: "cs = dcs @ (if STRICT_PURGE cfg then purge_plan (map (\<lambda>day. KStr (fst day)) sot) wfd else [])"
    by (auto simp: reconcile_plan_def plan_then_def split: option.splits if_splits)
  from days_plan_success[OF d[unfolded e]] have
    "\<forall>day\<in>set sot. snd (day_plan lib wfd day) = None"
    "dcs = concat (map (\<lambda>day. fst (day_plan lib wfd day)) (sort sot))"
    by simp_all
  with b c show ?thesis by blast
qed

lemma perform_sent:
  assumes "\<not> DRY_RUN cfg" "sent_form c" "perform cfg lib http s c = (Inr u, s')"
  shows "s' = s @ [c]"
proof (cases c)
  case (Create goal v comment daystamp requestid)
  with assms(2) obtain ds where "daystamp = Some ds" "if_given requestid = requestid" by auto
  with Create assms(1,3) show ?thesis
    by (auto simp: add_datapoint_def Let_def and_then_def split: sum.splits prod.splits)
next
  case (Update goal ident v comment daystamp)
  with assms(2) have "if_given daystamp = daystamp" by simp
  with Update assms(1,3) show ?thesis
    by (auto simp: update_datapoint_def Let_def and_then_def split: sum.splits prod.splits)
next
  case (Delete goal ident)
  with assms(1,3) show ?thesis
    by (auto simp: delete_datapoint_def Let_def and_then_def split: sum.splits prod.splits)
qed

lemma run_calls_sent:
  assumes "\<not> DRY_RUN cfg"
  shows "\<forall>c\<in>set cs. sent_form c \<Longrightarrow> run_calls cfg lib http s cs = (Inr u, s') \<Longrightarrow> s' = s @ cs"
proof (induction cs arbitrary: s)
  case Nil
  then show ?case by simp
next
  case (Cons c cs)
  obtain r s1 where p: "perform cfg lib http s c = (r, s1)" by (cases "perform cfg lib http s c")
  with Cons.prems(2) obtain u1 where r: "r = Inr u1"
    by (cases r) (simp_all add: and_then_def)
  from perform_sent[OF assms _ p[unfolded r]] Cons.prems(1) have s1: "s1 = s @ [c]" by simp
  from Cons.prems(2) p r have "run_calls cfg lib http s1 cs = (Inr u, s')"
    by (simp add: and_then_def)
  from Cons.IH[OF _ this] Cons.prems(1) s1 show ?case by simp
qed

lemma sent_form_day_plan: "\<forall>c\<in>set (fst (day_plan lib wfd day)). sent_form c"
proof -
  obtain ds sv where day: "day = (ds, sv)" by (cases day)
  show ?thesis
    unfolding day day_plan_def
    using sent_form_delete_plan sent_form_update_plan
    by (auto split: sum.splits list.splits)
qed

lemma sent_form_days_plan: "\<forall>c\<in>set (fst (days_plan lib wfd days)). sent_form c"
proof (induction days)
  case Nil
  then show ?case by simp
next
  case (Cons day days)
  with sent_form_day_plan[of lib wfd day] show ?case
    by (cases "day_plan lib wfd day") (auto simp: plan_then_def split: option.splits)
qed

lemma sent_form_purge_plan: "\<forall>c\<in>set (purge_plan keys wfd). sent_form c"
  using sent_form_delete_plan by (auto simp: purge_plan_def)

lemma sent_form_reconcile_plan: "\<forall>c\<in>set (fst (reconcile_plan cfg lib wf_all sot)). sent_form c"
proof (cases "bucket_by_day lib [] wf_all")
  case (Inl e)
  then show ?thesis by (simp add: reconcile_plan_def)
next
  case (Inr wfd)
  with sent_form_days_plan[of lib wfd "sort sot"] sent_form_purge_plan show ?thesis
    by (cases "days_plan lib wfd (sort sot)")
       (auto simp: reconcile_plan_def plan_then_def split: option.splits)
qed

lemma completed_run_plan:
  assumes "reconcile_fetched cfg lib http wf_all sot = (Inr (), sent)"
  shows "\<exists>cs. reconcile_plan cfg lib wf_all sot = (cs, None)
             \<and> sent = (if DRY_RUN cfg then [] else cs)"
proof -
  obtain cs eo where p: "reconcile_plan cfg lib wf_all sot = (cs, eo)"
    by (cases "reconcile_plan cfg lib wf_all sot")
  from assms have r: "run_plan cfg lib http [] (cs, eo) = (Inr (), sent)"
    by (simp add: reconcile_fetched_runs_plan p)
  obtain r1 s1 where c: "run_calls cfg lib http [] cs = (r1, s1)"
    by (cases "run_calls cfg lib http [] cs")
  from r c have eo: "eo = None" and r1: "r1 = Inr ()" and s1: "s1 = sent"
    by (auto simp: run_plan_def and_then_def split: sum.splits option.splits)
  have "sent = (if DRY_RUN cfg then [] else cs)"
  proof (cases "DRY_RUN cfg")
    case True
    with c s1 run_calls_dry[OF True, of lib http "[]" cs] show ?thesis by simp
  next
    case False
    from sent_form_reconcile_plan[of cfg lib wf_all sot] p
    have "\<forall>c\<in>set cs. sent_form c" by simp
    from run_calls_sent[OF False this c[unfolded r1]] s1 False show ?thesis by simp
  qed
  with p eo show ?thesis by simp
qed

lemma truthy_id: "get_truthy o1 \<Longrightarrow> o1 = Some (get_default o1 JNull)"
  by (cases o1) simp_all

lemma delete_plan_set:
  "set (delete_plan ys) =
   (\<lambda>d. Delete WAKEANDFOCUS_GOAL (get_default (dp_id d) JNull)) ` {d \<in> set ys. get_truthy (dp_id d)}"
  by (auto simp: delete_plan_def)

lemma purge_plan_set:
  assumes "bucket_by_day lib [] dps = Inr wfd"
  shows "set (purge_plan keys wfd) =
     (\<lambda>d. Delete WAKEANDFOCUS_GOAL (get_default (dp_id d) JNull)) ` {d \<in> set dps. purged_record lib keys d}"
proof -
  have "set_mset (mset (purge_plan keys wfd)) =
        set_mset (mset (map (\<lambda>d. Delete WAKEANDFOCUS_GOAL (get_default (dp_id d) JNull))
          (filter (purged_record lib keys) dps)))"
    using purge_plan_buckets[OF assms, of keys] by (simp add: purge_plan_Nil)
  then show ?thesis by (simp only: set_mset_mset set_map set_filter)
qed

lemma bucket_by_day_keys:
  "bucket_by_day lib acc dps = Inr wfd \<Longrightarrow> \<forall>d\<in>set dps. \<exists>k. day_key lib d = Inr k"
proof (induction dps arbitrary: acc)
  case Nil
  then show ?case by simp
next
  case (Cons d dps)
  then show ?case by (auto split: sum.splits option.splits)
qed

lemma day_key_stamped:
  "dp_daystamp x = Some (JStr ds) \<Longrightarrow> ds \<noteq> [] \<Longrightarrow> day_key lib x = Inr (Some (KStr ds))"
  by (simp add: day_key_def)

lemma overwrite_fields [simp]:
  "dp_value (overwrite v c d x) = Some (JInt v)"
  "dp_comment (overwrite v c d x) = Some (JStr c)"
  "dp_daystamp (overwrite v c d x) = stamp_field d (dp_daystamp x)"
  "dp_timestamp (overwrite v c d x) = dp_timestamp x"
  "dp_updated_at (overwrite v c d x) = dp_updated_at x"
  by (simp_all add: overwrite_def)

lemma overwrite_key [simp]: "dp_updated_key lib (overwrite v c d x) = dp_updated_key lib x"
  unfolding dp_updated_key_def overwrite_fields ..

lemma comment_ok_nonempty [simp]: "comment_ok_of sv ds \<noteq> []"
  by (simp add: comment_ok_of_def)

lemma round_half_even_int [simp]: "round_half_even (of_int n) = n"
  by (simp add: round_half_even_def)

lemma overwrite_settled:
  "\<bar>sv\<bar> < 2 ^ 53 \<Longrightarrow> \<not> needs_update lib (overwrite sv (comment_ok_of sv ds) d x) sv ds"
  by (simp add: needs_update_def keeper_value_def float_of_int_small comment_or_empty_def)

lemma new_record_key: "dp_updated_key lib (new_record i v c d) = Inr 0"
  by (simp add: new_record_def dp_updated_key_def)

subsection \<open>A run that completes leaves a converged collection\<close>

lemma completed_run_converges:
  assumes ids: "\<forall>x\<in>set wf_all. get_truthy (dp_id x)"
    and dist: "distinct (map dp_id wf_all)"
    and fresh: "\<forall>r c. Some (mint r c) \<notin> dp_id ` set wf_all"
    and keys: "distinct (map fst sot)"
    and days: "\<forall>day\<in>set sot. fst day \<noteq> [] \<and> \<bar>snd day\<bar> < 2 ^ 53"
    and plan: "reconcile_plan cfg lib wf_all sot = (cs, None)"
  shows "converged cfg lib sot (remote_after mint wf_all cs)"
proof -
  let ?keys = "map (\<lambda>day. KStr (fst day)) sot"
  let ?del = "\<lambda>d. Delete WAKEANDFOCUS_GOAL (get_default (dp_id d) JNull)"
  let ?P = "\<lambda>ds x. day_key lib x = Inr (Some (KStr ds))"
  from reconcile_plan_success[OF plan] obtain wfd where
    b: "bucket_by_day lib [] wf_all = Inr wfd"
    and ok: "\<forall>day\<in>set sot. snd (day_plan lib wfd day) = None"
    and cs: "cs = concat (map (\<lambda>day. fst (day_plan lib wfd day)) (sort sot))
              @ (if STRICT_PURGE cfg then purge_plan ?keys wfd else [])"
    by blast
  define srt where "srt ds = sorted_newest_first lib (filter (?P ds) wf_all)" for ds
  define dc where "dc day = fst (day_plan lib wfd day)" for day
  define pc where "pc = (if STRICT_PURGE cfg then purge_plan ?keys wfd else [])"
  have B: "sorted_newest_first lib (bucket wfd (KStr ds)) = srt ds" for ds
    using bucket_by_day_filter[OF b, of "KStr ds"] by (simp add: bucket_def srt_def)
  have cs2: "cs = concat (map dc (sort sot)) @ pc"
    unfolding cs dc_def pc_def ..
  have cs_set: "set cs = (\<Union>day\<in>set sot. set (dc day)) \<union> set pc"
    unfolding cs2 by simp
  have pc_set: "set pc = (if STRICT_PURGE cfg
                  then ?del ` {d \<in> set wf_all. purged_record lib ?keys d} else {})"
    unfolding pc_def using purge_plan_set[OF b, of ?keys] by simp
  have dwf: "distinct wf_all" using dist by (simp add: distinct_map)
  have inj: "x = y" if "x \<in> set wf_all" "y \<in> set wf_all" "dp_id x = dp_id y" for x y
    using dist that by (auto simp: distinct_map dest: inj_onD)
  have idx: "dp_id x = Some (get_default (dp_id x) JNull)" if "x \<in> set wf_all" for x
    using ids that by (intro truthy_id) simp
  have day_cases:
    "(srt ds = Inr []
        \<and> dc (ds, sv) = [Create WAKEANDFOCUS_GOAL sv (comment_ok_of sv ds) (Some ds)
                          (if_given (Some (requestid_of ds)))])
     \<or> (\<exists>keeper extras. srt ds = Inr (keeper # extras)
          \<and> dc (ds, sv) = delete_plan extras @ update_plan lib keeper sv ds)"
    if "(ds, sv) \<in> set sot" for ds sv
  proof -
    from ok that have "snd (day_plan lib wfd (ds, sv)) = None" by blast
    from day_plan_success[OF this] show ?thesis
      unfolding B dc_def by blast
  qed
  have srt_mset: "mset l = mset (filter (?P ds) wf_all)" if "srt ds = Inr l" for ds l
    using sorted_newest_first_result(1)[OF that[unfolded srt_def]] .
  have srt_set: "set l = {x \<in> set wf_all. ?P ds x}" if "srt ds = Inr l" for ds l
    using mset_eq_setD[OF srt_mset[OF that]] by simp
  have srt_distinct: "distinct l" if "srt ds = Inr l" for ds l
    using mset_eq_imp_distinct_iff[OF srt_mset[OF that]] dwf by simp
  have srt_key: "\<exists>k. dp_updated_key lib x = Inr k" if "srt ds = Inr l" "x \<in> set l" for ds l x
    using sorted_newest_first_result(2)[OF that(1)[unfolded srt_def]] that(2) srt_set[OF that(1)]
    by simp
  have srt_filter: "filter (?P ds) wf_all = [] \<longleftrightarrow> l = []" if "srt ds = Inr l" for ds l
    using srt_mset[OF that] by (metis mset_zero_iff)
  have nonempty: "ds \<noteq> []" and small: "\<bar>sv\<bar> < 2 ^ 53" if "(ds, sv) \<in> set sot" for ds sv
    using days that by force+
  have same_day: "sv' = sv" if "(ds, sv) \<in> set sot" "(ds, sv') \<in> set sot" for ds sv sv'
    using eq_key_imp_eq_value[OF keys that] by simp

  have Mdel: "\<exists>y\<in>set wf_all. dp_id y = Some i \<and>
        ((\<exists>ds sv keeper extras. (ds, sv) \<in> set sot \<and> srt ds = Inr (keeper # extras) \<and> y \<in> set extras)
         \<or> (STRICT_PURGE cfg \<and> purged_record lib ?keys y))"
    if "Delete g i \<in> set cs" for g i
  proof -
    from that cs_set consider (day) day where "day \<in> set sot" "Delete g i \<in> set (dc day)"
      | (purge) "Delete g i \<in> set pc" by blast
    then show ?thesis
    proof cases
      case day
      obtain ds sv where d: "day = (ds, sv)" by (cases day)
      from day_cases[of ds sv] day d obtain keeper extras where
        s: "srt ds = Inr (keeper # extras)"
        and m: "Delete g i \<in> set (delete_plan extras) \<or> Delete g i \<in> set (update_plan lib keeper sv ds)"
        by auto
      from m update_plan_no_delete[of lib keeper sv ds] have "Delete g i \<in> set (delete_plan extras)"
        by auto
      then obtain y where y: "y \<in> set extras" "i = get_default (dp_id y) JNull"
        by (auto simp: delete_plan_set)
      from y(1) srt_set[OF s] have yw: "y \<in> set wf_all" by auto
      from idx[OF yw] y(2) have "dp_id y = Some i" by simp
      with yw y(1) s day(1) d show ?thesis by blast
    next
      case purge
      then obtain y where sp: "STRICT_PURGE cfg" and yw: "y \<in> set wf_all"
        and p: "purged_record lib ?keys y" and i: "i = get_default (dp_id y) JNull"
        unfolding pc_set by (auto split: if_splits)
      from idx[OF yw] i have "dp_id y = Some i" by simp
      with yw sp p show ?thesis by blast
    qed
  qed
  have Mupd: "\<exists>y\<in>set wf_all. dp_id y = Some i \<and>
        (\<exists>ds sv extras. (ds, sv) \<in> set sot \<and> srt ds = Inr (y # extras) \<and> needs_update lib y sv ds
            \<and> v = sv \<and> c = comment_ok_of sv ds \<and> d = Some ds)"
    if "Update g i v c d \<in> set cs" for g i v c d
  proof -
    from that cs_set consider (day) day where "day \<in> set sot" "Update g i v c d \<in> set (dc day)"
      | (purge) "Update g i v c d \<in> set pc" by blast
    then show ?thesis
    proof cases
      case day
      obtain ds sv where dd: "day = (ds, sv)" by (cases day)
      from day_cases[of ds sv] day dd obtain keeper extras where
        s: "srt ds = Inr (keeper # extras)"
        and m: "Update g i v c d \<in> set (delete_plan extras)
                \<or> Update g i v c d \<in> set (update_plan lib keeper sv ds)"
        by auto
      from m have u: "Update g i v c d \<in> set (update_plan lib keeper sv ds)"
        by (auto simp: delete_plan_set)
      then have n: "needs_update lib keeper sv ds" and i: "i = get_default (dp_id keeper) JNull"
        and f: "v = sv" "c = comment_ok_of sv ds" "d = if_given (Some ds)"
        by (auto simp: update_plan_def split: if_splits)
      from srt_set[OF s] have kw: "keeper \<in> set wf_all" by auto
      from idx[OF kw] i have "dp_id keeper = Some i" by simp
      moreover from f(3) nonempty[of ds sv] day(1) dd have "d = Some ds" by simp
      ultimately show ?thesis using kw s n f(1,2) day(1) dd by blast
    next
      case purge
      then show ?thesis unfolding pc_set by (auto split: if_splits)
    qed
  qed
  have in_day: "set (dc day) \<subseteq> set cs" if "day \<in> set sot" for day
    using that cs_set by blast
  have Cdel: "killed cs y"
    if "(ds, sv) \<in> set sot" "srt ds = Inr (keeper # extras)" "y \<in> set extras" for ds sv keeper extras y
  proof -
    from srt_set[OF that(2)] that(3) have yw: "y \<in> set wf_all" by auto
    from day_cases[OF that(1)] that(2) have "dc (ds, sv) = delete_plan extras @ update_plan lib keeper sv ds"
      by auto
    moreover from that(3) ids yw have "?del y \<in> set (delete_plan extras)"
      by (auto simp: delete_plan_set)
    ultimately have "?del y \<in> set cs" using in_day[OF that(1)] by auto
    with idx[OF yw] show ?thesis unfolding killed_def by blast
  qed
  have Cpur: "killed cs y" if "STRICT_PURGE cfg" "y \<in> set wf_all" "purged_record lib ?keys y" for y
  proof -
    from that have "?del y \<in> set pc" unfolding pc_set by auto
    then have "?del y \<in> set cs" using cs_set by blast
    with idx[OF that(2)] show ?thesis unfolding killed_def by blast
  qed
  have Cupd: "Update WAKEANDFOCUS_GOAL (get_default (dp_id y) JNull) sv (comment_ok_of sv ds) (Some ds) \<in> set cs"
    if "(ds, sv) \<in> set sot" "srt ds = Inr (y # extras)" "needs_update lib y sv ds" for ds sv y extras
  proof -
    from srt_set[OF that(2)] have yw: "y \<in> set wf_all" by auto
    from day_cases[OF that(1)] that(2) have "dc (ds, sv) = delete_plan extras @ update_plan lib y sv ds"
      by auto
    moreover from that(3) ids yw nonempty[OF that(1)]
    have "update_plan lib y sv ds =
          [Update WAKEANDFOCUS_GOAL (get_default (dp_id y) JNull) sv (comment_ok_of sv ds) (Some ds)]"
      by (simp add: update_plan_def)
    ultimately show ?thesis using in_day[OF that(1)] by auto
  qed
  have member_key: "?P ds x" if "srt ds = Inr l" "x \<in> set l" for ds l x
    using srt_set[OF that(1)] that(2) by simp
  have keeper_alive: "\<not> killed cs keeper"
    if "(ds, sv) \<in> set sot" "srt ds = Inr (keeper # extras)" for ds sv keeper extras
  proof
    assume "killed cs keeper"
    then obtain g i where d: "Delete g i \<in> set cs" and i: "dp_id keeper = Some i"
      unfolding killed_def by blast
    from srt_set[OF that(2)] have kw: "keeper \<in> set wf_all" and kk: "?P ds keeper" by auto
    from Mdel[OF d] obtain y where yw: "y \<in> set wf_all" and yi: "dp_id y = Some i"
      and c: "(\<exists>ds sv keeper extras. (ds, sv) \<in> set sot \<and> srt ds = Inr (keeper # extras) \<and> y \<in> set extras)
         \<or> (STRICT_PURGE cfg \<and> purged_record lib ?keys y)" by blast
    from inj[OF yw kw] yi i have yk: "y = keeper" by simp
    from c show False
    proof
      assume "\<exists>ds sv keeper extras. (ds, sv) \<in> set sot \<and> srt ds = Inr (keeper # extras) \<and> y \<in> set extras"
      then obtain ds' keeper' extras' where s': "srt ds' = Inr (keeper' # extras')"
        and m: "y \<in> set extras'" by blast
      from member_key[OF s', of y] m kk yk have "ds' = ds" by simp
      with s' that(2) have "extras' = extras" "keeper' = keeper" by simp_all
      with m yk srt_distinct[OF that(2)] show False by simp
    next
      assume "STRICT_PURGE cfg \<and> purged_record lib ?keys y"
      with yk kk that(1) show False by (force simp: purged_record_def)
    qed
  qed
  have UPD: "(updated cs x = x \<and> \<not> (\<exists>g i v c d. Update g i v c d \<in> set cs \<and> dp_id x = Some i))
      \<or> (\<exists>ds sv extras. (ds, sv) \<in> set sot \<and> srt ds = Inr (x # extras) \<and> needs_update lib x sv ds
            \<and> updated cs x = overwrite sv (comment_ok_of sv ds) (Some ds) x)"
    if xw: "x \<in> set wf_all" for x
  proof (cases "\<exists>g i v c d. Update g i v c d \<in> set cs \<and> dp_id x = Some i")
    case False
    then have "\<forall>g i v' c' d'. Update g i v' c' d' \<in> set cs \<and> dp_id x = Some i
             \<longrightarrow> v' = 0 \<and> c' = [] \<and> d' = None" by blast
    from updated_uniform[OF this] have "updated cs x = x"
      by (simp only: if_not_P[OF False])
    with False show ?thesis by blast
  next
    case True
    then obtain g i v c d where u: "Update g i v c d \<in> set cs" and i: "dp_id x = Some i" by blast
    from Mupd[OF u] obtain y ds sv extras where yw: "y \<in> set wf_all" and yi: "dp_id y = Some i"
      and f: "(ds, sv) \<in> set sot" "srt ds = Inr (y # extras)" "needs_update lib y sv ds" by blast
    from inj[OF yw xw] yi i have yx: "y = x" by simp
    have uni: "\<forall>g i v' c' d'. Update g i v' c' d' \<in> set cs \<and> dp_id x = Some i
             \<longrightarrow> v' = sv \<and> c' = comment_ok_of sv ds \<and> d' = Some ds"
    proof (intro allI impI)
      fix g' i' v' c' d'
      assume a: "Update g' i' v' c' d' \<in> set cs \<and> dp_id x = Some i'"
      with Mupd[of g' i' v' c' d'] obtain y' ds' and sv' :: int and extras' where y'w: "y' \<in> set wf_all"
        and y'i: "dp_id y' = Some i'"
        and f': "(ds', sv') \<in> set sot" "srt ds' = Inr (y' # extras')"
          "v' = sv'" "c' = comment_ok_of sv' ds'" "d' = Some ds'" by blast
      from inj[OF y'w xw] y'i a have y'x: "y' = x" by simp
      from member_key[OF f'(2), of x] member_key[OF f(2), of x] y'x yx have "ds' = ds" by simp
      with same_day[OF f(1)] f'(1) have "sv' = sv" by simp
      with \<open>ds' = ds\<close> f' show "v' = sv \<and> c' = comment_ok_of sv ds \<and> d' = Some ds" by simp
    qed
    from updated_uniform[OF uni] have "updated cs x = overwrite sv (comment_ok_of sv ds) (Some ds) x"
      by (simp only: if_P[OF True])
    with f yx show ?thesis by blast
  qed
  have day_key_kept: "day_key lib (updated cs x) = day_key lib x" if xw: "x \<in> set wf_all" for x
    using UPD[OF xw]
  proof
    assume "updated cs x = x \<and> \<not> (\<exists>g i v c d. Update g i v c d \<in> set cs \<and> dp_id x = Some i)"
    then show ?thesis by simp
  next
    assume "\<exists>ds sv extras. (ds, sv) \<in> set sot \<and> srt ds = Inr (x # extras) \<and> needs_update lib x sv ds
            \<and> updated cs x = overwrite sv (comment_ok_of sv ds) (Some ds) x"
    then obtain ds sv extras where f: "(ds, sv) \<in> set sot" "srt ds = Inr (x # extras)"
      and u: "updated cs x = overwrite sv (comment_ok_of sv ds) (Some ds) x" by blast
    from member_key[OF f(2), of x] have "day_key lib x = Inr (Some (KStr ds))" by simp
    moreover have "day_key lib (updated cs x) = Inr (Some (KStr ds))"
      unfolding u using nonempty[OF f(1)] by (intro day_key_stamped) simp_all
    ultimately show ?thesis by simp
  qed
  have keeper_settled:
    "(\<exists>k. dp_updated_key lib (updated cs keeper) = Inr k) \<and> \<not> needs_update lib (updated cs keeper) sv ds"
    if f: "(ds, sv) \<in> set sot" "srt ds = Inr (keeper # extras)" for ds sv keeper extras
  proof -
    from srt_set[OF f(2)] have kw: "keeper \<in> set wf_all" by auto
    from srt_key[OF f(2), of keeper] obtain k where k: "dp_updated_key lib keeper = Inr k" by auto
    from UPD[OF kw] show ?thesis
    proof
      assume a: "updated cs keeper = keeper
                 \<and> \<not> (\<exists>g i v c d. Update g i v c d \<in> set cs \<and> dp_id keeper = Some i)"
      have "\<not> needs_update lib keeper sv ds"
      proof
        assume "needs_update lib keeper sv ds"
        from Cupd[OF f this] idx[OF kw] a show False by blast
      qed
      with a k show ?thesis by simp
    next
      assume "\<exists>ds sv extras. (ds, sv) \<in> set sot \<and> srt ds = Inr (keeper # extras)
            \<and> needs_update lib keeper sv ds
            \<and> updated cs keeper = overwrite sv (comment_ok_of sv ds) (Some ds) keeper"
      then obtain ds' sv' extras' where f': "(ds', sv') \<in> set sot" "srt ds' = Inr (keeper # extras')"
        and u: "updated cs keeper = overwrite sv' (comment_ok_of sv' ds') (Some ds') keeper" by blast
      from member_key[OF f'(2), of keeper] member_key[OF f(2), of keeper] have "ds' = ds" by simp
      with same_day[OF f(1)] f'(1) have "sv' = sv" by simp
      show ?thesis
        unfolding u \<open>ds' = ds\<close> \<open>sv' = sv\<close> using k overwrite_settled[OF small[OF f(1)]] by simp
    qed
  qed

  have targets: "Some i \<in> dp_id ` set wf_all" if "c \<in> set cs" "target_id c = Some i" for c i
  proof (cases c)
    case (Create g v cm d q)
    with that show ?thesis by simp
  next
    case (Update g j v cm d)
    with that Mupd[of g j v cm d] show ?thesis by force
  next
    case (Delete g j)
    with that Mdel[of g j] show ?thesis by force
  qed
  have "\<forall>r c. Some (mint r c) \<notin> target_id ` set cs"
  proof (intro allI notI)
    fix r c
    assume "Some (mint r c) \<in> target_id ` set cs"
    then obtain c' where "c' \<in> set cs" "target_id c' = Some (mint r c)" by force
    from targets[OF this] fresh show False by blast
  qed
  from remote_after_closed_form[OF this]
  have closed: "remote_after mint wf_all cs =
         map (updated cs) (filter (\<lambda>x. \<not> killed cs x) wf_all) @ created mint wf_all cs" .
  let ?new = "created mint wf_all cs"
  let ?old = "map (updated cs) (filter (\<lambda>x. \<not> killed cs x) wf_all)"
  define g where "g day = (if srt (fst day) = Inr []
      then [(Some (JInt (snd day)), Some (JStr (comment_ok_of (snd day) (fst day))), Some (JStr (fst day)))]
      else [])" for day :: "string \<times> int"
  have no_create_pc: "filter is_create pc = []"
    unfolding filter_empty_conv pc_set by (auto split: if_splits)
  have day_creates: "map create_fields (filter is_create (dc day)) = g day" if "day \<in> set sot" for day
  proof -
    obtain ds sv where d: "day = (ds, sv)" by (cases day)
    from that d have m: "(ds, sv) \<in> set sot" by simp
    from day_cases[OF m] show ?thesis
    proof (elim disjE exE conjE)
      assume "srt ds = Inr []"
        "dc (ds, sv) = [Create WAKEANDFOCUS_GOAL sv (comment_ok_of sv ds) (Some ds)
                          (if_given (Some (requestid_of ds)))]"
      then show ?thesis by (simp add: g_def d)
    next
      fix keeper extras
      assume "srt ds = Inr (keeper # extras)"
        "dc (ds, sv) = delete_plan extras @ update_plan lib keeper sv ds"
      moreover have "filter is_create (delete_plan extras) = []"
        unfolding filter_empty_conv by (auto simp: delete_plan_set)
      moreover have "filter is_create (update_plan lib keeper sv ds) = []"
        by (simp add: update_plan_def)
      ultimately show ?thesis by (simp add: g_def d)
    qed
  qed
  have fields: "map dp_fields ?new = concat (map g (sort sot))"
  proof -
    have "map create_fields (filter is_create cs) =
          concat (map (\<lambda>day. map create_fields (filter is_create (dc day))) (sort sot))"
      unfolding cs2 by (simp add: no_create_pc filter_concat map_concat comp_def)
    also have "\<dots> = concat (map g (sort sot))"
      using day_creates by (intro arg_cong[where f=concat] map_cong) simp_all
    finally show ?thesis by (simp add: created_fields)
  qed
  have dsort: "distinct (map fst (sort sot))"
  proof -
    have "mset (map fst (sort sot)) = mset (map fst sot)" by simp
    from mset_eq_imp_distinct_iff[OF this] keys show ?thesis by simp
  qed
  have new_in: "\<exists>ds sv. (ds, sv) \<in> set sot \<and> srt ds = Inr []
        \<and> dp_fields z = (Some (JInt sv), Some (JStr (comment_ok_of sv ds)), Some (JStr ds))"
    if "z \<in> set ?new" for z
  proof -
    from that have "dp_fields z \<in> set (map dp_fields ?new)" by simp
    then have "dp_fields z \<in> (\<Union>day\<in>set sot. set (g day))" unfolding fields by simp
    then show ?thesis by (auto simp: g_def split: if_splits)
  qed
  have new_key: "\<exists>ds sv. (ds, sv) \<in> set sot \<and> dp_daystamp z = Some (JStr ds)
        \<and> day_key lib z = Inr (Some (KStr ds))"
    if "z \<in> set ?new" for z
  proof -
    from new_in[OF that] obtain ds sv where m: "(ds, sv) \<in> set sot"
      and st: "dp_daystamp z = Some (JStr ds)" by (auto simp: dp_fields_def)
    from day_key_stamped[OF st nonempty[OF m]] m st show ?thesis by blast
  qed
  have new_filter: "filter (?P ds) ?new
        = filter ((\<lambda>f. snd (snd f) = Some (JStr ds)) \<circ> dp_fields) ?new" for ds
  proof (rule filter_cong[OF refl])
    fix z assume "z \<in> set ?new"
    from new_key[OF this] show "?P ds z = ((\<lambda>f. snd (snd f) = Some (JStr ds)) \<circ> dp_fields) z"
      by (auto simp: dp_fields_def)
  qed
  have new_day: "map dp_fields (filter (?P ds) ?new) = g (ds, sv)" if "(ds, sv) \<in> set sot" for ds sv
  proof -
    let ?Q = "\<lambda>f. snd (snd f) = Some (JStr ds)"
    have "map dp_fields (filter (?Q \<circ> dp_fields) ?new) = filter ?Q (map dp_fields ?new)"
      by (simp add: filter_map)
    also have "\<dots> = concat (map (\<lambda>day. filter ?Q (g day)) (sort sot))"
      unfolding fields by (rule filter_concat_map)
    also have "\<dots> = concat (map (\<lambda>day. if fst day = ds then g day else []) (sort sot))"
      by (intro arg_cong[where f=concat] map_cong refl) (auto simp: g_def)
    also have "\<dots> = g (ds, sv)"
      using that by (intro concat_for_key[OF dsort]) simp
    finally show ?thesis unfolding new_filter .
  qed
  have settled: "day_settled lib (remote_after mint wf_all cs) day" if dm: "day \<in> set sot" for day
  proof -
    obtain ds sv where d: "day = (ds, sv)" by (cases day)
    from dm d have m: "(ds, sv) \<in> set sot" by simp
    have old: "filter (?P ds) ?old
               = map (updated cs) (filter (\<lambda>x. \<not> killed cs x) (filter (?P ds) wf_all))"
    proof -
      have "filter (?P ds) ?old
            = map (updated cs) (filter (\<lambda>x. ?P ds (updated cs x)) (filter (\<lambda>x. \<not> killed cs x) wf_all))"
        by (simp add: filter_map comp_def)
      also have "filter (\<lambda>x. ?P ds (updated cs x)) (filter (\<lambda>x. \<not> killed cs x) wf_all)
            = filter (\<lambda>x. \<not> killed cs x) (filter (?P ds) wf_all)"
        unfolding filter_filter by (rule filter_cong) (auto simp: day_key_kept)
      finally show ?thesis .
    qed
    from day_cases[OF m] show ?thesis
    proof (elim disjE exE conjE)
      assume s: "srt ds = Inr []"
      from srt_filter[OF s] have e: "filter (?P ds) wf_all = []" by simp
      from new_day[OF m] s have "map dp_fields (filter (?P ds) ?new)
           = [(Some (JInt sv), Some (JStr (comment_ok_of sv ds)), Some (JStr ds))]"
        by (simp add: g_def)
      then obtain z where z: "filter (?P ds) ?new = [z]"
        and zf: "dp_fields z = (Some (JInt sv), Some (JStr (comment_ok_of sv ds)), Some (JStr ds))"
        by (auto simp: map_eq_Cons_conv)
      have "z \<in> set (filter (?P ds) ?new)" unfolding z by simp
      then have "z \<in> set ?new" by simp
      from created_new_records[OF this] obtain i v c dd where zn: "z = new_record i v c dd" by blast
      have k: "dp_updated_key lib z = Inr 0" unfolding zn by (rule new_record_key)
      have n: "\<not> needs_update lib z sv ds"
        using zf small[OF m]
        by (simp add: dp_fields_def needs_update_def keeper_value_def float_of_int_small
            comment_or_empty_def)
      have "filter (?P ds) (remote_after mint wf_all cs) = [z]"
        unfolding closed filter_append old e z by simp
      with k n show ?thesis unfolding day_settled_def d by simp
    next
      fix keeper extras
      assume s: "srt ds = Inr (keeper # extras)"
      have "filter (\<lambda>x. \<not> killed cs x) (filter (?P ds) wf_all) = [keeper]"
      proof (rule distinct_singleton)
        show "distinct (filter (\<lambda>x. \<not> killed cs x) (filter (?P ds) wf_all))"
          using dwf by simp
        have "set (filter (?P ds) wf_all) = insert keeper (set extras)"
          using srt_set[OF s] by auto
        then show "set (filter (\<lambda>x. \<not> killed cs x) (filter (?P ds) wf_all)) = {keeper}"
          using keeper_alive[OF m s] Cdel[OF m s] by (simp only: set_filter) blast
      qed
      moreover from new_day[OF m] s have "filter (?P ds) ?new = []" by (simp add: g_def)
      ultimately have "filter (?P ds) (remote_after mint wf_all cs) = [updated cs keeper]"
        unfolding closed filter_append old by simp
      with keeper_settled[OF m s] show ?thesis unfolding day_settled_def d by auto
    qed
  qed
  have split_remote: "(\<exists>x\<in>set wf_all. \<not> killed cs x \<and> y = updated cs x) \<or> y \<in> set ?new"
    if "y \<in> set (remote_after mint wf_all cs)" for y
    using that unfolding closed by auto
  have filed: "\<exists>k. day_key lib y = Inr k" if "y \<in> set (remote_after mint wf_all cs)" for y
    using split_remote[OF that]
  proof
    assume "\<exists>x\<in>set wf_all. \<not> killed cs x \<and> y = updated cs x"
    with day_key_kept bucket_by_day_keys[OF b] show ?thesis by auto
  next
    assume "y \<in> set ?new"
    from new_key[OF this] show ?thesis by blast
  qed
  have unpurged: "\<not> purged_record lib ?keys y"
    if sp: "STRICT_PURGE cfg" and y: "y \<in> set (remote_after mint wf_all cs)" for y
    using split_remote[OF y]
  proof
    assume "\<exists>x\<in>set wf_all. \<not> killed cs x \<and> y = updated cs x"
    then obtain x where xw: "x \<in> set wf_all" and nk: "\<not> killed cs x" and yx: "y = updated cs x"
      by blast
    have "purged_record lib ?keys y = purged_record lib ?keys x"
      unfolding purged_record_def yx day_key_kept[OF xw] by simp
    with Cpur[OF sp xw] nk show ?thesis by blast
  next
    assume "y \<in> set ?new"
    from new_key[OF this] obtain ds sv where "(ds, sv) \<in> set sot"
      "day_key lib y = Inr (Some (KStr ds))" by blast
    then show ?thesis by (force simp: purged_record_def)
  qed
  have "list_all (\<lambda>y. case day_key lib y of Inl e \<Rightarrow> False | Inr k \<Rightarrow> True)
          (remote_after mint wf_all cs)"
    unfolding list_all_iff using filed by (fastforce split: sum.splits)
  moreover have "list_all (day_settled lib (remote_after mint wf_all cs)) sot"
    unfolding list_all_iff using settled by blast
  moreover have "STRICT_PURGE cfg \<longrightarrow>
      list_all (\<lambda>y. \<not> purged_record lib ?keys y) (remote_after mint wf_all cs)"
    unfolding list_all_iff using unpurged by blast
  ultimately show ?thesis unfolding converged_def by blast
qed

subsection \<open>The claims\<close>

text \<open>
  C1. The duplicate-create rejection of the repository's own test (status 422, body
  \<open>{"errors":"Duplicate request"}\<close>) is not returned as a result: the helper raises
  the same \<open>RuntimeError\<close> as for any other 4xx or 5xx answer, carrying status and body.
\<close>

theorem add_datapoint_duplicate_raises:
  \<open>add_datapoint
     \<lparr>USERNAME = ''user'', AUTH_TOKEN = Some ''token'', DRY_RUN = False,
      FULL_HISTORY = False, STRICT_PURGE = False, HISTORY_DAYS = 90\<rparr>
     (\<lambda>sent req. \<lparr>status_code = 422, text_body = ''{"errors":"Duplicate request"}'',
                   json_body = Some (JObj [(''errors'', JStr ''Duplicate request'')])\<rparr>)
     [] ''goal'' 1 ''c'' ''20250101'' (Some ''r1'')
   = (Inl (RuntimeError ''POST goal 20250101 -> 422: {"errors":"Duplicate request"}''),
      [Create ''goal'' 1 ''c'' (Some ''20250101'') (Some ''r1'')])\<close>
proof -
  have "str_nat 422 = ''422''"
    by code_simp
  then show ?thesis
    by (simp add: add_datapoint_def raise_for_status_def str_int_def)
qed

text \<open>
  C2. The start-time rule at the four boundary inputs: 09:15 qualifies, 09:16 does not,
  06:00 qualifies, and 05:59 qualifies too, since its hour is below the cut-off hour and
  the rule has no lower bound.
\<close>

theorem qualifies_time_at_boundaries:
  "qualifies_time 9 15 \<and> \<not> qualifies_time 9 16 \<and> qualifies_time 6 0 \<and> qualifies_time 5 59"
  by (simp add: qualifies_time_def CUTOFF_HOUR_def CUTOFF_MINUTE_def)

lemma bex_filter: "(\<exists>r\<in>set (filter P xs). Q r) = (\<exists>r\<in>set xs. P r \<and> Q r)"
  by auto






lemma py_min_Min: "py_min xs = Inr (Min (set xs))" if "xs \<noteq> []"
proof (cases xs)
  case Nil
  then show ?thesis using that by simp
next
  case (Cons a list)
  have "fold min list a = Min (set (a # list))"
    by (rule Min.set_eq_fold[symmetric])
  with Cons show ?thesis by simp
qed

text \<open>
  C9. In full-history mode the range ends today; it starts on the local date of the
  earliest numeric timestamp among the fetched source records, and when there is none it
  starts today, so that the days visited are today alone.
\<close>

theorem full_history_range:
  assumes "FULL_HISTORY cfg" and "today < date_max"
  shows "(numeric_timestamps fm_all = [] \<longrightarrow>
            determine_range cfg lib today fm_all = Inr (today, today)
            \<and> daterange today today = ([today], None))
       \<and> (numeric_timestamps fm_all \<noteq> [] \<longrightarrow>
            determine_range cfg lib today fm_all =
              (case local_date lib (Min (set (numeric_timestamps fm_all))) of
                 Inl e \<Rightarrow> Inl e
               | Inr start_date \<Rightarrow> Inr (start_date, today))
            \<and> (\<forall>start_date. local_date lib (Min (set (numeric_timestamps fm_all))) = Inr start_date
                  \<longrightarrow> daterange start_date today = ([start_date..today], None)))"
proof (intro conjI impI allI)
  assume "numeric_timestamps fm_all = []"
  with assms(1) show "determine_range cfg lib today fm_all = Inr (today, today)"
    by (simp add: determine_range_def)
next
  show "daterange today today = ([today], None)"
    using daterange_upto[OF assms(2), of today] by simp
next
  assume "numeric_timestamps fm_all \<noteq> []"
  with assms(1) show "determine_range cfg lib today fm_all =
              (case local_date lib (Min (set (numeric_timestamps fm_all))) of
                 Inl e \<Rightarrow> Inl e
               | Inr start_date \<Rightarrow> Inr (start_date, today))"
    by (simp add: determine_range_def py_min_Min split: sum.splits)
next
  fix start_date
  show "daterange start_date today = ([start_date..today], None)"
    by (rule daterange_upto[OF assms(2)])
qed

theorem full_history_range_witness:
  "FULL_HISTORY \<lparr>USERNAME = ''user'', AUTH_TOKEN = Some ''token'', DRY_RUN = False,
                  FULL_HISTORY = True, STRICT_PURGE = False, HISTORY_DAYS = 90\<rparr>
   \<and> 739254 < date_max
   \<and> numeric_timestamps [dp_empty\<lparr>dp_timestamp := Some (JStr ''soon'')\<rparr>] = []
   \<and> determine_range \<lparr>USERNAME = ''user'', AUTH_TOKEN = Some ''token'', DRY_RUN = False,
                  FULL_HISTORY = True, STRICT_PURGE = False, HISTORY_DAYS = 90\<rparr>
        example_lib 739254 [dp_empty\<lparr>dp_timestamp := Some (JStr ''soon'')\<rparr>] = Inr (739254, 739254)
   \<and> daterange 739254 739254 = ([739254], None)
   \<and> determine_range \<lparr>USERNAME = ''user'', AUTH_TOKEN = Some ''token'', DRY_RUN = False,
                  FULL_HISTORY = True, STRICT_PURGE = False, HISTORY_DAYS = 90\<rparr>
        example_lib 739254
        [dp_empty\<lparr>dp_timestamp := Some (JInt 1735840800)\<rparr>,
         dp_empty\<lparr>dp_timestamp := Some (JFloat 1735754400)\<rparr>] = Inr (739252, 739254)"
proof -
  let ?cfg = "\<lparr>USERNAME = ''user'', AUTH_TOKEN = Some ''token'', DRY_RUN = False,
                  FULL_HISTORY = True, STRICT_PURGE = False, HISTORY_DAYS = 90\<rparr>"
  have h1: "FULL_HISTORY ?cfg" by simp
  have h2: "739254 < date_max" by (simp add: date_max_def)
  have n1: "numeric_timestamps [dp_empty\<lparr>dp_timestamp := Some (JStr ''soon'')\<rparr>] = []"
    by (simp add: numeric_timestamps_def)
  have n2: "numeric_timestamps [dp_empty\<lparr>dp_timestamp := Some (JInt 1735840800)\<rparr>,
         dp_empty\<lparr>dp_timestamp := Some (JFloat 1735754400)\<rparr>] = [1735840800, 1735754400]"
    by (simp add: numeric_timestamps_def)
  have ld: "local_date example_lib 1735754400 = Inr 739252"
    by (simp add: example_lib_def)
  from full_history_range[OF h1 h2, of "[dp_empty\<lparr>dp_timestamp := Some (JStr ''soon'')\<rparr>]" example_lib] n1
  have a: "determine_range ?cfg example_lib 739254 [dp_empty\<lparr>dp_timestamp := Some (JStr ''soon'')\<rparr>]
             = Inr (739254, 739254)"
    and b: "daterange 739254 739254 = ([739254], None)"
    by simp_all
  from full_history_range[OF h1 h2, of "[dp_empty\<lparr>dp_timestamp := Some (JInt 1735840800)\<rparr>,
         dp_empty\<lparr>dp_timestamp := Some (JFloat 1735754400)\<rparr>]" example_lib]
  have c: "determine_range ?cfg example_lib 739254
        [dp_empty\<lparr>dp_timestamp := Some (JInt 1735840800)\<rparr>,
         dp_empty\<lparr>dp_timestamp := Some (JFloat 1735754400)\<rparr>] = Inr (739252, 739254)"
    unfolding n2 by (simp add: ld)
  from h1 h2 n1 a b c show ?thesis by (intro conjI)
qed

text \<open>
  C6. With mutations enabled and a remote feed that accepts every request, the requests
  of a day that has datapoints are the deletions of the extras that carry an id, followed
  by exactly one update of the keeper, with the value of the source of truth and the
  canonical comment together, if and only if the keeper carries an id and its value
  rounded to the nearest integer (\<open>x\<close> is the value as a float) differs from the source
  of truth or its comment differs from the canonical comment; otherwise no update is
  sent.
\<close>

theorem keeper_update_iff:
  assumes "\<not> DRY_RUN cfg" and "accepts http"
    and "sorted_newest_first lib (bucket wf_by_day (KStr ds)) = Inr (keeper # extras)"
    and "keeper_value lib keeper = Finite x"
  shows "reconcile_day cfg lib http sent wf_by_day (ds, sot_val) =
           (Inr (),
            sent
            @ map (\<lambda>d. Delete WAKEANDFOCUS_GOAL (get_default (dp_id d) JNull))
                (filter (\<lambda>d. get_truthy (dp_id d)) extras)
            @ (if get_truthy (dp_id keeper)
                  \<and> (round_half_even x \<noteq> sot_val
                       \<or> comment_or_empty keeper \<noteq> JStr (comment_ok_of sot_val ds))
               then [Update WAKEANDFOCUS_GOAL (get_default (dp_id keeper) JNull) sot_val
                       (comment_ok_of sot_val ds) (if_given (Some ds))]
               else []))
       \<and> \<bar>x - of_int (round_half_even x)\<bar> \<le> 1 / 2"
proof -
  have p: "day_plan lib wf_by_day (ds, sot_val) =
      (delete_plan extras @ update_plan lib keeper sot_val ds, None)"
    using assms(3,4) by (simp add: day_plan_def)
  have f: "\<forall>c\<in>set (delete_plan extras @ update_plan lib keeper sot_val ds). sent_form c"
    using sent_form_delete_plan sent_form_update_plan by auto
  have "reconcile_day cfg lib http sent wf_by_day (ds, sot_val) =
      (Inr (), sent @ delete_plan extras @ update_plan lib keeper sot_val ds)"
    unfolding reconcile_day_plan p using run_calls_accepted[OF assms(1,2) f] by simp
  moreover have "update_plan lib keeper sot_val ds =
      (if get_truthy (dp_id keeper)
                  \<and> (round_half_even x \<noteq> sot_val
                       \<or> comment_or_empty keeper \<noteq> JStr (comment_ok_of sot_val ds))
               then [Update WAKEANDFOCUS_GOAL (get_default (dp_id keeper) JNull) sot_val
                       (comment_ok_of sot_val ds) (if_given (Some ds))]
               else [])"
    using assms(4) by (auto simp: update_plan_def needs_update_def)
  ultimately show ?thesis
    using round_half_even_nearest[of x] by (simp add: delete_plan_def)
qed

theorem keeper_update_iff_witness:
  "\<not> DRY_RUN example_cfg \<and> accepts ok_http
   \<and> sorted_newest_first example_lib
        (bucket [(KStr ''20250101'',
                  [dp_empty\<lparr>dp_id := Some (JStr ''e1''), dp_timestamp := Some (JInt 100)\<rparr>,
                   dp_empty\<lparr>dp_id := Some (JStr ''k1''), dp_timestamp := Some (JInt 200),
                             dp_value := Some (JInt 0)\<rparr>])] (KStr ''20250101''))
      = Inr [dp_empty\<lparr>dp_id := Some (JStr ''k1''), dp_timestamp := Some (JInt 200),
                       dp_value := Some (JInt 0)\<rparr>,
             dp_empty\<lparr>dp_id := Some (JStr ''e1''), dp_timestamp := Some (JInt 100)\<rparr>]
   \<and> keeper_value example_lib
        (dp_empty\<lparr>dp_id := Some (JStr ''k1''), dp_timestamp := Some (JInt 200),
                  dp_value := Some (JInt 0)\<rparr>) = Finite 0
   \<and> reconcile_day example_cfg example_lib ok_http []
        [(KStr ''20250101'',
          [dp_empty\<lparr>dp_id := Some (JStr ''e1''), dp_timestamp := Some (JInt 100)\<rparr>,
           dp_empty\<lparr>dp_id := Some (JStr ''k1''), dp_timestamp := Some (JInt 200),
                     dp_value := Some (JInt 0)\<rparr>])]
        (''20250101'', 1)
      = (Inr (), [Delete WAKEANDFOCUS_GOAL (JStr ''e1''),
                  Update WAKEANDFOCUS_GOAL (JStr ''k1'') 1 (comment_ok_of 1 ''20250101'')
                    (Some ''20250101'')])"
proof -
  let ?e = "dp_empty\<lparr>dp_id := Some (JStr ''e1''), dp_timestamp := Some (JInt 100)\<rparr>"
  let ?k = "dp_empty\<lparr>dp_id := Some (JStr ''k1''), dp_timestamp := Some (JInt 200),
                     dp_value := Some (JInt 0)\<rparr>"
  let ?by = "[(KStr ''20250101'', [?e, ?k])]"
  have s: "sorted_newest_first example_lib (bucket ?by (KStr ''20250101'')) = Inr [?k, ?e]"
    by (simp add: sorted_newest_first_def dp_updated_key_def bucket_def
        float_of_int_small)
  have v: "keeper_value example_lib ?k = Finite 0"
    by (simp add: keeper_value_def float_of_int_small)
  have r: "round_half_even 0 = 0"
    by (simp add: round_half_even_def)
  from keeper_update_iff[OF not_dry_example accepts_ok_http s v, of "[]" 1]
  have "reconcile_day example_cfg example_lib ok_http [] ?by (''20250101'', 1)
      = (Inr (), [Delete WAKEANDFOCUS_GOAL (JStr ''e1''),
                  Update WAKEANDFOCUS_GOAL (JStr ''k1'') 1 (comment_ok_of 1 ''20250101'')
                    (Some ''20250101'')])"
    by (simp add: r)
  with not_dry_example accepts_ok_http s v show ?thesis by (intro conjI)
qed

text \<open>
  A keeper without an id whose value differs from the source of truth is not updated:
  the run completes without sending a request.
\<close>

theorem keeper_without_id_not_updated:
  "py_round (keeper_value example_lib
       (dp_empty\<lparr>dp_daystamp := Some (JStr ''20250101''), dp_value := Some (JInt 0),
                 dp_comment := Some (JStr ''old'')\<rparr>)) = Inr 0
   \<and> reconcile_fetched example_cfg example_lib ok_http
       [dp_empty\<lparr>dp_daystamp := Some (JStr ''20250101''), dp_value := Some (JInt 0),
                 dp_comment := Some (JStr ''old'')\<rparr>]
       [(''20250101'', 1)] = (Inr (), [])"
proof -
  let ?k = "dp_empty\<lparr>dp_daystamp := Some (JStr ''20250101''), dp_value := Some (JInt 0),
                 dp_comment := Some (JStr ''old'')\<rparr>"
  have v: "keeper_value example_lib ?k = Finite 0"
    by (simp add: keeper_value_def float_of_int_small)
  have r: "py_round (keeper_value example_lib ?k) = Inr 0"
    unfolding v by (simp add: round_half_even_def)
  have b: "bucket_by_day example_lib [] [?k] = Inr [(KStr ''20250101'', [?k])]"
    by (simp add: day_key_def bucket_def)
  have s: "sorted_newest_first example_lib [?k] = Inr [?k]"
    by (simp add: sorted_newest_first_def dp_updated_key_def)
  have "reconcile_plan example_cfg example_lib [?k] [(''20250101'', 1)] = ([], None)"
    unfolding reconcile_plan_def b
    by (simp add: example_cfg_def plan_then_def day_plan_def bucket_def s r
        update_plan_def delete_plan_def)
  then have "reconcile_fetched example_cfg example_lib ok_http [?k] [(''20250101'', 1)] = (Inr (), [])"
    by (simp add: reconcile_fetched_runs_plan)
  with r show ?thesis by simp
qed

text \<open>
  C5. When a day has target datapoints (whose integer timestamps a double holds
  exactly), the keeper is a record of the day that is maximal under the recency key
  (parsed last-updated timestamp, else numeric timestamp, else zero), the other records
  are the extras, and the day's requests start with one deletion for each extra that
  carries an id, in order; no other request of the day is a deletion.
\<close>

theorem keeper_is_most_recent:
  assumes "\<not> DRY_RUN cfg" and "accepts http"
    and "bucket wf_by_day (KStr ds) \<noteq> []"
    and "\<forall>d\<in>set (bucket wf_by_day (KStr ds)). timestamp_exact d"
  shows "\<exists>keeper extras rest.
           sorted_newest_first lib (bucket wf_by_day (KStr ds)) = Inr (keeper # extras)
         \<and> mset (keeper # extras) = mset (bucket wf_by_day (KStr ds))
         \<and> (\<forall>d\<in>set (bucket wf_by_day (KStr ds)). recency_key lib d \<le> recency_key lib keeper)
         \<and> snd (reconcile_day cfg lib http sent wf_by_day (ds, sot_val)) =
             sent
             @ map (\<lambda>d. Delete WAKEANDFOCUS_GOAL (get_default (dp_id d) JNull))
                 (filter (\<lambda>d. get_truthy (dp_id d)) extras)
             @ rest
         \<and> (\<forall>c\<in>set rest. \<not> is_delete c)"
proof -
  let ?b = "bucket wf_by_day (KStr ds)"
  from sort_key_head_least[OF assms(3), of "\<lambda>d. - recency_key lib d"]
  obtain keeper extras where s: "sort_key (\<lambda>d. - recency_key lib d) ?b = keeper # extras"
    and le: "\<forall>z\<in>set ?b. recency_key lib z \<le> recency_key lib keeper"
    and m: "mset (keeper # extras) = mset ?b"
    by auto
  have sn: "sorted_newest_first lib ?b = Inr (keeper # extras)"
    using sorted_newest_first_recency[OF assms(4)] s by simp
  define rest where "rest = (case py_round (keeper_value lib keeper) of
      Inl e \<Rightarrow> [] | Inr r \<Rightarrow> update_plan lib keeper sot_val ds)"
  have nd: "\<forall>c\<in>set rest. \<not> is_delete c"
    using update_plan_no_delete by (auto simp: rest_def split: sum.splits)
  have f: "\<forall>c\<in>set (delete_plan extras @ rest). sent_form c"
    using sent_form_delete_plan sent_form_update_plan
    by (auto simp: rest_def split: sum.splits)
  have "\<exists>eo. day_plan lib wf_by_day (ds, sot_val) = (delete_plan extras @ rest, eo)"
    using sn by (auto simp: day_plan_def rest_def split: sum.splits)
  then obtain eo where "day_plan lib wf_by_day (ds, sot_val) = (delete_plan extras @ rest, eo)" ..
  then have "snd (reconcile_day cfg lib http sent wf_by_day (ds, sot_val)) =
      sent @ delete_plan extras @ rest"
    unfolding reconcile_day_plan using run_plan_accepted[OF assms(1,2) f] by simp
  with sn m le nd show ?thesis
    unfolding delete_plan_def by blast
qed

theorem keeper_is_most_recent_witness:
  "\<not> DRY_RUN example_cfg \<and> accepts ok_http
   \<and> bucket [(KStr ''20250101'',
        [dp_empty\<lparr>dp_id := Some (JStr ''a''), dp_updated_at := Some (JStr ''2025-01-02T12:00:00Z'')\<rparr>,
         dp_empty\<lparr>dp_id := Some (JStr ''b''), dp_updated_at := Some (JStr ''2025-01-03T12:00:00Z'')\<rparr>,
         dp_empty\<lparr>dp_id := Some (JStr ''c''), dp_timestamp := Some (JInt 100)\<rparr>])]
        (KStr ''20250101'') \<noteq> []
   \<and> timestamp_exact (dp_empty\<lparr>dp_id := Some (JStr ''a''), dp_updated_at := Some (JStr ''2025-01-02T12:00:00Z'')\<rparr>)
   \<and> timestamp_exact (dp_empty\<lparr>dp_id := Some (JStr ''b''), dp_updated_at := Some (JStr ''2025-01-03T12:00:00Z'')\<rparr>)
   \<and> timestamp_exact (dp_empty\<lparr>dp_id := Some (JStr ''c''), dp_timestamp := Some (JInt 100)\<rparr>)
   \<and> sorted_newest_first example_lib
        [dp_empty\<lparr>dp_id := Some (JStr ''a''), dp_updated_at := Some (JStr ''2025-01-02T12:00:00Z'')\<rparr>,
         dp_empty\<lparr>dp_id := Some (JStr ''b''), dp_updated_at := Some (JStr ''2025-01-03T12:00:00Z'')\<rparr>,
         dp_empty\<lparr>dp_id := Some (JStr ''c''), dp_timestamp := Some (JInt 100)\<rparr>]
      = Inr [dp_empty\<lparr>dp_id := Some (JStr ''b''), dp_updated_at := Some (JStr ''2025-01-03T12:00:00Z'')\<rparr>,
             dp_empty\<lparr>dp_id := Some (JStr ''a''), dp_updated_at := Some (JStr ''2025-01-02T12:00:00Z'')\<rparr>,
             dp_empty\<lparr>dp_id := Some (JStr ''c''), dp_timestamp := Some (JInt 100)\<rparr>]
   \<and> (\<exists>rest. snd (reconcile_day example_cfg example_lib ok_http []
         [(KStr ''20250101'',
           [dp_empty\<lparr>dp_id := Some (JStr ''a''), dp_updated_at := Some (JStr ''2025-01-02T12:00:00Z'')\<rparr>,
            dp_empty\<lparr>dp_id := Some (JStr ''b''), dp_updated_at := Some (JStr ''2025-01-03T12:00:00Z'')\<rparr>,
            dp_empty\<lparr>dp_id := Some (JStr ''c''), dp_timestamp := Some (JInt 100)\<rparr>])]
         (''20250101'', 0))
       = [Delete WAKEANDFOCUS_GOAL (JStr ''a''), Delete WAKEANDFOCUS_GOAL (JStr ''c'')] @ rest
       \<and> list_all (\<lambda>c. \<not> is_delete c) rest)"
proof -
  let ?a = "dp_empty\<lparr>dp_id := Some (JStr ''a''), dp_updated_at := Some (JStr ''2025-01-02T12:00:00Z'')\<rparr>"
  let ?b = "dp_empty\<lparr>dp_id := Some (JStr ''b''), dp_updated_at := Some (JStr ''2025-01-03T12:00:00Z'')\<rparr>"
  let ?c = "dp_empty\<lparr>dp_id := Some (JStr ''c''), dp_timestamp := Some (JInt 100)\<rparr>"
  let ?by = "[(KStr ''20250101'', [?a, ?b, ?c])]"
  have bk: "bucket ?by (KStr ''20250101'') = [?a, ?b, ?c]"
    by (simp add: bucket_def)
  have h3: "bucket ?by (KStr ''20250101'') \<noteq> []"
    unfolding bk by simp
  have t: "timestamp_exact ?a" "timestamp_exact ?b" "timestamp_exact ?c"
    by (simp_all add: timestamp_exact_def)
  then have h4: "\<forall>d\<in>set (bucket ?by (KStr ''20250101'')). timestamp_exact d"
    unfolding bk by simp
  have s: "sorted_newest_first example_lib [?a, ?b, ?c] = Inr [?b, ?a, ?c]"
    by (simp add: sorted_newest_first_def dp_updated_key_def example_lib_def float_of_int_small)
  from keeper_is_most_recent[OF not_dry_example accepts_ok_http h3 h4, of example_lib "[]" 0]
  obtain keeper extras rest where
    k: "sorted_newest_first example_lib (bucket ?by (KStr ''20250101'')) = Inr (keeper # extras)"
    and r: "snd (reconcile_day example_cfg example_lib ok_http [] ?by (''20250101'', 0)) =
             [] @ map (\<lambda>d. Delete WAKEANDFOCUS_GOAL (get_default (dp_id d) JNull))
                 (filter (\<lambda>d. get_truthy (dp_id d)) extras) @ rest"
    and n: "\<forall>c\<in>set rest. \<not> is_delete c"
    by blast
  from k have "keeper = ?b" "extras = [?a, ?c]"
    unfolding bk s by simp_all
  with r n have "snd (reconcile_day example_cfg example_lib ok_http [] ?by (''20250101'', 0))
       = [Delete WAKEANDFOCUS_GOAL (JStr ''a''), Delete WAKEANDFOCUS_GOAL (JStr ''c'')] @ rest
       \<and> list_all (\<lambda>c. \<not> is_delete c) rest"
    by (simp add: list_all_iff)
  then have e: "\<exists>rest. snd (reconcile_day example_cfg example_lib ok_http [] ?by (''20250101'', 0))
       = [Delete WAKEANDFOCUS_GOAL (JStr ''a''), Delete WAKEANDFOCUS_GOAL (JStr ''c'')] @ rest
       \<and> list_all (\<lambda>c. \<not> is_delete c) rest" ..
  from not_dry_example accepts_ok_http h3 t s e show ?thesis by (intro conjI)
qed

text \<open>
  An extra without an id is not deleted: the keeper matches the source of truth and the
  run completes without sending a request.
\<close>

theorem extra_without_id_not_deleted:
  "sorted_newest_first example_lib
     [dp_empty\<lparr>dp_id := Some (JStr ''k''), dp_daystamp := Some (JStr ''20250101''),
               dp_timestamp := Some (JInt 200), dp_value := Some (JInt 1),
               dp_comment := Some (JStr (comment_ok_of 1 ''20250101''))\<rparr>,
      dp_empty\<lparr>dp_daystamp := Some (JStr ''20250101''), dp_timestamp := Some (JInt 100)\<rparr>]
   = Inr [dp_empty\<lparr>dp_id := Some (JStr ''k''), dp_daystamp := Some (JStr ''20250101''),
               dp_timestamp := Some (JInt 200), dp_value := Some (JInt 1),
               dp_comment := Some (JStr (comment_ok_of 1 ''20250101''))\<rparr>,
      dp_empty\<lparr>dp_daystamp := Some (JStr ''20250101''), dp_timestamp := Some (JInt 100)\<rparr>]
   \<and> reconcile_fetched example_cfg example_lib ok_http
     [dp_empty\<lparr>dp_id := Some (JStr ''k''), dp_daystamp := Some (JStr ''20250101''),
               dp_timestamp := Some (JInt 200), dp_value := Some (JInt 1),
               dp_comment := Some (JStr (comment_ok_of 1 ''20250101''))\<rparr>,
      dp_empty\<lparr>dp_daystamp := Some (JStr ''20250101''), dp_timestamp := Some (JInt 100)\<rparr>]
     [(''20250101'', 1)] = (Inr (), [])"
proof -
  let ?k = "dp_empty\<lparr>dp_id := Some (JStr ''k''), dp_daystamp := Some (JStr ''20250101''),
               dp_timestamp := Some (JInt 200), dp_value := Some (JInt 1),
               dp_comment := Some (JStr (comment_ok_of 1 ''20250101''))\<rparr>"
  let ?e = "dp_empty\<lparr>dp_daystamp := Some (JStr ''20250101''), dp_timestamp := Some (JInt 100)\<rparr>"
  have s: "sorted_newest_first example_lib [?k, ?e] = Inr [?k, ?e]"
    by (simp add: sorted_newest_first_def dp_updated_key_def float_of_int_small)
  have b: "bucket_by_day example_lib [] [?k, ?e] = Inr [(KStr ''20250101'', [?k, ?e])]"
    by (simp add: day_key_def bucket_def)
  have c: "comment_ok_of 1 ''20250101'' \<noteq> []"
    by (simp add: comment_ok_of_def)
  have r: "py_round (keeper_value example_lib ?k) = Inr 1"
    by (simp add: keeper_value_def float_of_int_small round_half_even_def)
  have "reconcile_plan example_cfg example_lib [?k, ?e] [(''20250101'', 1)] = ([], None)"
    unfolding reconcile_plan_def b
    by (simp add: example_cfg_def plan_then_def day_plan_def bucket_def s r c
        update_plan_def needs_update_def comment_or_empty_def delete_plan_def)
  then have "reconcile_fetched example_cfg example_lib ok_http [?k, ?e] [(''20250101'', 1)] = (Inr (), [])"
    by (simp add: reconcile_fetched_runs_plan)
  with s show ?thesis by simp
qed

text \<open>
  C8. With mutations enabled and a remote feed that accepts every request, once the
  per-day phase has completed, the run completes; with the strict-purge flag on it then
  sends one deletion for each fetched datapoint that carries an id and is filed under a
  day stamp absent from the source of truth, and no other request; with the flag off it
  sends nothing more.
\<close>

theorem strict_purge_deletes:
  assumes "\<not> DRY_RUN cfg" and "accepts http"
    and "bucket_by_day lib [] wf_all = Inr wf_by_day"
    and "reconcile_days cfg lib http [] wf_by_day (sort sot_map) = (Inr (), sent)"
  shows "\<exists>purged.
           reconcile_fetched cfg lib http wf_all sot_map = (Inr (), sent @ purged)
         \<and> mset purged =
             (if STRICT_PURGE cfg
              then mset (map (\<lambda>d. Delete WAKEANDFOCUS_GOAL (get_default (dp_id d) JNull))
                     (filter (\<lambda>d. get_truthy (dp_id d)
                                 \<and> (\<exists>k. day_key lib d = Inr (Some k)
                                        \<and> k \<notin> KStr ` fst ` set sot_map)) wf_all))
              else {#})"
proof -
  let ?keys = "map (\<lambda>day. KStr (fst day)) sot_map"
  define purged where "purged = (if STRICT_PURGE cfg then purge_plan ?keys wf_by_day else [])"
  have f: "\<forall>c\<in>set (purge_plan ?keys wf_by_day). sent_form c"
    using sent_form_delete_plan by (auto simp: purge_plan_def split: if_splits)
  have r: "reconcile_fetched cfg lib http wf_all sot_map = (Inr (), sent @ purged)"
    using assms(3,4) run_calls_accepted[OF assms(1,2) f, of lib sent]
    by (simp add: reconcile_fetched_def purge_days_plan purged_def)
  have k: "set ?keys = KStr ` fst ` set sot_map" by auto
  have "mset (purge_plan ?keys wf_by_day) =
      mset (map (\<lambda>d. Delete WAKEANDFOCUS_GOAL (get_default (dp_id d) JNull))
             (filter (purged_record lib ?keys) wf_all))"
    using purge_plan_buckets[OF assms(3), of ?keys] by (simp add: purge_plan_Nil)
  then have m: "mset purged =
             (if STRICT_PURGE cfg
              then mset (map (\<lambda>d. Delete WAKEANDFOCUS_GOAL (get_default (dp_id d) JNull))
                     (filter (\<lambda>d. get_truthy (dp_id d)
                                 \<and> (\<exists>k. day_key lib d = Inr (Some k)
                                        \<and> k \<notin> KStr ` fst ` set sot_map)) wf_all))
              else {#})"
    unfolding purged_def purged_record_def k by simp
  from r m show ?thesis by blast
qed

theorem strict_purge_deletes_witness:
  "\<not> DRY_RUN purge_cfg \<and> accepts ok_http
   \<and> bucket_by_day example_lib []
        [dp_empty\<lparr>dp_id := Some (JStr ''k''), dp_daystamp := Some (JStr ''20250101''),
                  dp_value := Some (JInt 1),
                  dp_comment := Some (JStr (comment_ok_of 1 ''20250101''))\<rparr>,
         dp_empty\<lparr>dp_id := Some (JStr ''p''), dp_daystamp := Some (JStr ''20241231'')\<rparr>]
      = Inr [(KStr ''20250101'',
              [dp_empty\<lparr>dp_id := Some (JStr ''k''), dp_daystamp := Some (JStr ''20250101''),
                  dp_value := Some (JInt 1),
                  dp_comment := Some (JStr (comment_ok_of 1 ''20250101''))\<rparr>]),
             (KStr ''20241231'',
              [dp_empty\<lparr>dp_id := Some (JStr ''p''), dp_daystamp := Some (JStr ''20241231'')\<rparr>])]
   \<and> reconcile_days purge_cfg example_lib ok_http []
        [(KStr ''20250101'',
              [dp_empty\<lparr>dp_id := Some (JStr ''k''), dp_daystamp := Some (JStr ''20250101''),
                  dp_value := Some (JInt 1),
                  dp_comment := Some (JStr (comment_ok_of 1 ''20250101''))\<rparr>]),
             (KStr ''20241231'',
              [dp_empty\<lparr>dp_id := Some (JStr ''p''), dp_daystamp := Some (JStr ''20241231'')\<rparr>])]
        (sort [(''20250101'', 1)]) = (Inr (), [])
   \<and> reconcile_fetched purge_cfg example_lib ok_http
        [dp_empty\<lparr>dp_id := Some (JStr ''k''), dp_daystamp := Some (JStr ''20250101''),
                  dp_value := Some (JInt 1),
                  dp_comment := Some (JStr (comment_ok_of 1 ''20250101''))\<rparr>,
         dp_empty\<lparr>dp_id := Some (JStr ''p''), dp_daystamp := Some (JStr ''20241231'')\<rparr>]
        [(''20250101'', 1)]
      = (Inr (), [Delete WAKEANDFOCUS_GOAL (JStr ''p'')])"
proof -
  let ?k = "dp_empty\<lparr>dp_id := Some (JStr ''k''), dp_daystamp := Some (JStr ''20250101''),
                  dp_value := Some (JInt 1),
                  dp_comment := Some (JStr (comment_ok_of 1 ''20250101''))\<rparr>"
  let ?p = "dp_empty\<lparr>dp_id := Some (JStr ''p''), dp_daystamp := Some (JStr ''20241231'')\<rparr>"
  let ?by = "[(KStr ''20250101'', [?k]), (KStr ''20241231'', [?p])]"
  have b: "bucket_by_day example_lib [] [?k, ?p] = Inr ?by"
    by (simp add: day_key_def bucket_def)
  have s: "sorted_newest_first example_lib [?k] = Inr [?k]"
    by (simp add: sorted_newest_first_def dp_updated_key_def)
  have c: "comment_ok_of 1 ''20250101'' \<noteq> []"
    by (simp add: comment_ok_of_def)
  have r: "py_round (keeper_value example_lib ?k) = Inr 1"
    by (simp add: keeper_value_def float_of_int_small round_half_even_def)
  have "days_plan example_lib ?by [(''20250101'', 1)] = ([], None)"
    by (simp add: plan_then_def day_plan_def bucket_def s r c
        update_plan_def needs_update_def comment_or_empty_def delete_plan_def)
  then have d: "reconcile_days purge_cfg example_lib ok_http [] ?by (sort [(''20250101'', 1)]) = (Inr (), [])"
    by (simp add: reconcile_days_plan)
  have k1: "day_key example_lib ?k = Inr (Some (KStr ''20250101''))"
    and k2: "day_key example_lib ?p = Inr (Some (KStr ''20241231''))"
    by (simp_all add: day_key_def)
  from strict_purge_deletes[OF not_dry_purge accepts_ok_http b d]
  obtain purged where 1: "reconcile_fetched purge_cfg example_lib ok_http [?k, ?p] [(''20250101'', 1)]
      = (Inr (), [] @ purged)"
    and 2: "mset purged = {#Delete WAKEANDFOCUS_GOAL (JStr ''p'')#}"
    by (auto simp: k1 k2 purge_cfg_def)
  from 2 have "purged = [Delete WAKEANDFOCUS_GOAL (JStr ''p'')]"
    by (metis mset_single_iff_right)
  with 1 have e: "reconcile_fetched purge_cfg example_lib ok_http [?k, ?p] [(''20250101'', 1)]
      = (Inr (), [Delete WAKEANDFOCUS_GOAL (JStr ''p'')])" by simp
  from not_dry_purge accepts_ok_http b d e show ?thesis by (intro conjI)
qed

text \<open>
  With the flag on, a datapoint of a day absent from the source of truth that carries no
  id is not deleted.
\<close>

theorem purge_skips_record_without_id:
  "STRICT_PURGE purge_cfg
   \<and> day_key example_lib (dp_empty\<lparr>dp_daystamp := Some (JStr ''20241231'')\<rparr>)
       = Inr (Some (KStr ''20241231''))
   \<and> reconcile_fetched purge_cfg example_lib ok_http
        [dp_empty\<lparr>dp_id := Some (JStr ''k''), dp_daystamp := Some (JStr ''20250101''),
                  dp_value := Some (JInt 1),
                  dp_comment := Some (JStr (comment_ok_of 1 ''20250101''))\<rparr>,
         dp_empty\<lparr>dp_daystamp := Some (JStr ''20241231'')\<rparr>]
        [(''20250101'', 1)]
      = (Inr (), [])"
proof -
  let ?k = "dp_empty\<lparr>dp_id := Some (JStr ''k''), dp_daystamp := Some (JStr ''20250101''),
                  dp_value := Some (JInt 1),
                  dp_comment := Some (JStr (comment_ok_of 1 ''20250101''))\<rparr>"
  let ?p = "dp_empty\<lparr>dp_daystamp := Some (JStr ''20241231'')\<rparr>"
  let ?by = "[(KStr ''20250101'', [?k]), (KStr ''20241231'', [?p])]"
  have b: "bucket_by_day example_lib [] [?k, ?p] = Inr ?by"
    by (simp add: day_key_def bucket_def)
  have s: "sorted_newest_first example_lib [?k] = Inr [?k]"
    by (simp add: sorted_newest_first_def dp_updated_key_def)
  have c: "comment_ok_of 1 ''20250101'' \<noteq> []"
    by (simp add: comment_ok_of_def)
  have r: "py_round (keeper_value example_lib ?k) = Inr 1"
    by (simp add: keeper_value_def float_of_int_small round_half_even_def)
  have k2: "day_key example_lib ?p = Inr (Some (KStr ''20241231''))"
    by (simp add: day_key_def)
  have "reconcile_plan purge_cfg example_lib [?k, ?p] [(''20250101'', 1)] = ([], None)"
    unfolding reconcile_plan_def b
    by (simp add: purge_cfg_def example_cfg_def plan_then_def day_plan_def bucket_def s r c
        update_plan_def needs_update_def comment_or_empty_def delete_plan_def purge_plan_def)
  then have "reconcile_fetched purge_cfg example_lib ok_http [?k, ?p] [(''20250101'', 1)] = (Inr (), [])"
    by (simp add: reconcile_fetched_runs_plan)
  with k2 show ?thesis by (simp add: purge_cfg_def)
qed

text \<open>
  C7. In the single-day script a record without an id is not skipped: a keeper whose
  value differs, or an extra, that lacks the key \<open>id\<close> ends the run with \<open>KeyError\<close>,
  before any request is sent. On the same datapoints the history script completes.
\<close>

theorem single_day_missing_id_raises:
  "reconcile_beeminder_with_sot example_cfg example_lib ok_http []
     [dp_empty\<lparr>dp_daystamp := Some (JStr ''20250101''), dp_value := Some (JInt 0),
               dp_comment := Some (JStr ''old'')\<rparr>]
     ''20250101'' 1 = (Inl (KeyError ''id''), [])
   \<and> reconcile_beeminder_with_sot example_cfg example_lib ok_http []
     [dp_empty\<lparr>dp_id := Some (JStr ''k''), dp_daystamp := Some (JStr ''20250101''),
               dp_timestamp := Some (JInt 200)\<rparr>,
      dp_empty\<lparr>dp_daystamp := Some (JStr ''20250101''), dp_timestamp := Some (JInt 100)\<rparr>]
     ''20250101'' 1 = (Inl (KeyError ''id''), [])
   \<and> reconcile_fetched example_cfg example_lib ok_http
     [dp_empty\<lparr>dp_daystamp := Some (JStr ''20250101''), dp_value := Some (JInt 0),
               dp_comment := Some (JStr ''old'')\<rparr>]
     [(''20250101'', 1)] = (Inr (), [])"
proof -
  let ?k = "dp_empty\<lparr>dp_daystamp := Some (JStr ''20250101''), dp_value := Some (JInt 0),
               dp_comment := Some (JStr ''old'')\<rparr>"
  let ?a = "dp_empty\<lparr>dp_id := Some (JStr ''k''), dp_daystamp := Some (JStr ''20250101''),
               dp_timestamp := Some (JInt 200)\<rparr>"
  let ?b = "dp_empty\<lparr>dp_daystamp := Some (JStr ''20250101''), dp_timestamp := Some (JInt 100)\<rparr>"
  have r: "py_round (keeper_value example_lib ?k) = Inr 0"
    by (simp add: keeper_value_def float_of_int_small round_half_even_def)
  have 1: "reconcile_beeminder_with_sot example_cfg example_lib ok_http [] [?k] ''20250101'' 1
      = (Inl (KeyError ''id''), [])"
    by (simp add: reconcile_beeminder_with_sot_def sort_today_def r update_keeper_today_def
        subscript_id_def)
  have s: "sort_today [?a, ?b] = Inr [?a, ?b]"
    by (simp add: sort_today_def raw_key_def)
  have 2: "reconcile_beeminder_with_sot example_cfg example_lib ok_http [] [?a, ?b] ''20250101'' 1
      = (Inl (KeyError ''id''), [])"
    by (simp add: reconcile_beeminder_with_sot_def s subscript_id_def)
  have b: "bucket_by_day example_lib [] [?k] = Inr [(KStr ''20250101'', [?k])]"
    by (simp add: day_key_def bucket_def)
  have sn: "sorted_newest_first example_lib [?k] = Inr [?k]"
    by (simp add: sorted_newest_first_def dp_updated_key_def)
  have "reconcile_plan example_cfg example_lib [?k] [(''20250101'', 1)] = ([], None)"
    unfolding reconcile_plan_def b
    by (simp add: example_cfg_def plan_then_def day_plan_def bucket_def sn r
        update_plan_def delete_plan_def)
  then have 3: "reconcile_fetched example_cfg example_lib ok_http [?k] [(''20250101'', 1)] = (Inr (), [])"
    by (simp add: reconcile_fetched_runs_plan)
  from 1 2 3 show ?thesis by (intro conjI)
qed

text \<open>
  C3. The Reconciler is idempotent: when a run of the history script completes, a second
  run on the collection that the requests of the first leave on the remote feed sends no
  create, update or delete request and completes, whatever the feed would answer. The
  fetched datapoints carry distinct ids, the server gives fresh ids to the datapoints it
  creates, and the days of the source of truth are distinct non-empty strings with values
  that a double holds exactly.
\<close>

theorem reconcile_idempotent:
  assumes "\<forall>x\<in>set wf_all. get_truthy (dp_id x)"
    and "distinct (map dp_id wf_all)"
    and "\<forall>r c. Some (mint r c) \<notin> dp_id ` set wf_all"
    and "distinct (map fst sot_map)"
    and "\<forall>day\<in>set sot_map. fst day \<noteq> [] \<and> \<bar>snd day\<bar> < 2 ^ 53"
    and "reconcile_fetched cfg lib http wf_all sot_map = (Inr (), sent)"
  shows "reconcile_fetched cfg lib http' (remote_after mint wf_all sent) sot_map = (Inr (), [])"
proof -
  from completed_run_plan[OF assms(6)] obtain cs where
    p: "reconcile_plan cfg lib wf_all sot_map = (cs, None)"
    and s: "sent = (if DRY_RUN cfg then [] else cs)" by blast
  show ?thesis
  proof (cases "DRY_RUN cfg")
    case True
    with s have "remote_after mint wf_all sent = wf_all" by (simp add: remote_after_def)
    then show ?thesis
      by (simp add: reconcile_fetched_runs_plan p run_plan_def run_calls_dry[OF True])
  next
    case False
    with s have "sent = cs" by simp
    with completed_run_converges[OF assms(1-5) p]
    have "converged cfg lib sot_map (remote_after mint wf_all sent)" by simp
    then show ?thesis by (rule converged_no_requests)
  qed
qed

theorem reconcile_idempotent_witness:
  "reconcile_fetched purge_cfg example_lib ok_http
     [dp_empty\<lparr>dp_id := Some (JStr ''k''), dp_daystamp := Some (JStr ''20250101''),
               dp_timestamp := Some (JInt 200), dp_value := Some (JInt 0),
               dp_comment := Some (JStr ''old'')\<rparr>,
      dp_empty\<lparr>dp_id := Some (JStr ''e''), dp_daystamp := Some (JStr ''20250101''),
               dp_timestamp := Some (JInt 100)\<rparr>,
      dp_empty\<lparr>dp_id := Some (JStr ''p''), dp_daystamp := Some (JStr ''20241231'')\<rparr>]
     [(''20250101'', 1), (''20250102'', 0)]
   = (Inr (),
      [Delete WAKEANDFOCUS_GOAL (JStr ''e''),
       Update WAKEANDFOCUS_GOAL (JStr ''k'') 1 (comment_ok_of 1 ''20250101'') (Some ''20250101''),
       Create WAKEANDFOCUS_GOAL 0 (comment_ok_of 0 ''20250102'') (Some ''20250102'')
         (Some (requestid_of ''20250102'')),
       Delete WAKEANDFOCUS_GOAL (JStr ''p'')])
   \<and> reconcile_fetched purge_cfg example_lib ok_http
       (remote_after (\<lambda>r c. JStr ''n'')
         [dp_empty\<lparr>dp_id := Some (JStr ''k''), dp_daystamp := Some (JStr ''20250101''),
               dp_timestamp := Some (JInt 200), dp_value := Some (JInt 0),
               dp_comment := Some (JStr ''old'')\<rparr>,
          dp_empty\<lparr>dp_id := Some (JStr ''e''), dp_daystamp := Some (JStr ''20250101''),
               dp_timestamp := Some (JInt 100)\<rparr>,
          dp_empty\<lparr>dp_id := Some (JStr ''p''), dp_daystamp := Some (JStr ''20241231'')\<rparr>]
         [Delete WAKEANDFOCUS_GOAL (JStr ''e''),
          Update WAKEANDFOCUS_GOAL (JStr ''k'') 1 (comment_ok_of 1 ''20250101'') (Some ''20250101''),
          Create WAKEANDFOCUS_GOAL 0 (comment_ok_of 0 ''20250102'') (Some ''20250102'')
            (Some (requestid_of ''20250102'')),
          Delete WAKEANDFOCUS_GOAL (JStr ''p'')])
       [(''20250101'', 1), (''20250102'', 0)]
   = (Inr (), [])"
proof -
  let ?k = "dp_empty\<lparr>dp_id := Some (JStr ''k''), dp_daystamp := Some (JStr ''20250101''),
               dp_timestamp := Some (JInt 200), dp_value := Some (JInt 0),
               dp_comment := Some (JStr ''old'')\<rparr>"
  let ?e = "dp_empty\<lparr>dp_id := Some (JStr ''e''), dp_daystamp := Some (JStr ''20250101''),
               dp_timestamp := Some (JInt 100)\<rparr>"
  let ?p = "dp_empty\<lparr>dp_id := Some (JStr ''p''), dp_daystamp := Some (JStr ''20241231'')\<rparr>"
  let ?sot = "[(''20250101'', 1::int), (''20250102'', 0)]"
  let ?cs = "[Delete WAKEANDFOCUS_GOAL (JStr ''e''),
       Update WAKEANDFOCUS_GOAL (JStr ''k'') 1 (comment_ok_of 1 ''20250101'') (Some ''20250101''),
       Create WAKEANDFOCUS_GOAL 0 (comment_ok_of 0 ''20250102'') (Some ''20250102'')
         (Some (requestid_of ''20250102'')),
       Delete WAKEANDFOCUS_GOAL (JStr ''p'')]"
  let ?by = "[(KStr ''20250101'', [?k, ?e]), (KStr ''20241231'', [?p])]"
  have b: "bucket_by_day example_lib [] [?k, ?e, ?p] = Inr ?by"
    by (simp add: day_key_def bucket_def)
  have s: "sorted_newest_first example_lib [?k, ?e] = Inr [?k, ?e]"
    by (simp add: sorted_newest_first_def dp_updated_key_def float_of_int_small)
  have s0: "sorted_newest_first example_lib [] = Inr []"
    by (simp add: sorted_newest_first_def)
  have r: "py_round (keeper_value example_lib ?k) = Inr 0"
    by (simp add: keeper_value_def float_of_int_small round_half_even_def)
  have st: "sort ?sot = ?sot" by simp
  have d1: "day_plan example_lib ?by (''20250101'', 1) =
      ([Delete WAKEANDFOCUS_GOAL (JStr ''e''),
        Update WAKEANDFOCUS_GOAL (JStr ''k'') 1 (comment_ok_of 1 ''20250101'') (Some ''20250101'')], None)"
    by (simp add: day_plan_def bucket_def s r update_plan_def needs_update_def delete_plan_def)
  have d2: "day_plan example_lib ?by (''20250102'', 0) =
      ([Create WAKEANDFOCUS_GOAL 0 (comment_ok_of 0 ''20250102'') (Some ''20250102'')
         (Some (requestid_of ''20250102''))], None)"
    by (simp add: day_plan_def bucket_def s0)
  have pp: "purge_plan [KStr ''20250101'', KStr ''20250102''] ?by = [Delete WAKEANDFOCUS_GOAL (JStr ''p'')]"
    by (simp add: purge_plan_def delete_plan_def)
  have plan: "reconcile_plan purge_cfg example_lib [?k, ?e, ?p] ?sot = (?cs, None)"
    unfolding reconcile_plan_def b st
    by (simp add: purge_cfg_def plan_then_def d1 d2 pp)
  have f: "\<forall>c\<in>set ?cs. sent_form c" by simp
  have run: "reconcile_fetched purge_cfg example_lib ok_http [?k, ?e, ?p] ?sot = (Inr (), ?cs)"
    unfolding reconcile_fetched_runs_plan plan run_plan_def
    using run_calls_accepted[OF not_dry_purge accepts_ok_http f, of example_lib "[]"] by simp
  have "reconcile_fetched purge_cfg example_lib ok_http
          (remote_after (\<lambda>r c. JStr ''n'') [?k, ?e, ?p] ?cs) ?sot = (Inr (), [])"
    by (rule reconcile_idempotent[OF _ _ _ _ _ run]) simp_all
  with run show ?thesis by (intro conjI)
qed

end
